(* ===== verification/XW_Prelude.thy ===== *)
theory XW_Prelude
  imports Main "HOL-Library.Word" "HOL-Library.Multiset"
begin

text \<open>
  Shared vocabulary of the crossword development: the machine types of the C++ sources
  (\<^verbatim>\<open>char\<close>/\<^verbatim>\<open>uint8_t\<close> as \<open>8 word\<close>, \<^verbatim>\<open>uint16_t\<close> word identifiers as \<open>16 word\<close>,
  \<^verbatim>\<open>uint32_t\<close> masks as \<open>32 word\<close>, \<^verbatim>\<open>uint64_t\<close> packed keys as \<open>64 word\<close>,
  \<^verbatim>\<open>std::string\<close> as a list of bytes), the fact collections the component theories
  extend, and the generic lemmas on bytes, lists and maps that their proofs share.
\<close>

unbundle bit_operations_syntax

section \<open>Machine types\<close>

type_synonym byte = "8 word"
type_synonym str = "byte list"
type_synonym wid = "16 word"
type_synonym mask32 = "32 word"
type_synonym key = "64 word"

section \<open>Fact collections\<close>

named_theorems xw_defs "unfolding rules of the character-level definitions"
named_theorems xw_inv "invariant preservation facts of the dictionary operations"
named_theorems xw_frame "fields an operation leaves unchanged"

section \<open>Bytes read as naturals\<close>

lemma unat_byte_less: "unat (c :: byte) < 256"
  using unsigned_less [of c, where 'a = nat] by simp

lemma byte_eqI: "unat (a :: byte) = unat b \<Longrightarrow> a = b"
  by (simp add: word_unat_eq_iff)

lemma unat_byte_sub:
  "unat (c - d :: byte) =
     (if unat d \<le> unat c then unat c - unat d else unat c + 256 - unat d)"
  by (simp add: unat_sub_if')

lemma unat_byte_add:
  "unat (c + d :: byte) =
     (if unat c + unat d < 256 then unat c + unat d else unat c + unat d - 256)"
  by (simp add: unat_plus_if')

text \<open>A byte read as a signed \<^verbatim>\<open>char\<close>: two's complement.\<close>

lemma mod_256_centred:
  fixes k :: int
  assumes "0 \<le> k" and "k < 256"
  shows "(k + 128) mod 256 - 128 = (if k < 128 then k else k - 256)"
proof (cases "k < 128")
  case True
  with assms have "(k + 128) mod 256 = k + 128" by (intro mod_pos_pos_trivial) simp_all
  with True show ?thesis by simp
next
  case False
  have "k + 128 = (k - 128) + 256" by simp
  then have "(k + 128) mod 256 = (k - 128) mod 256" by (simp only: mod_add_self2)
  also from False assms have "\<dots> = k - 128" by (intro mod_pos_pos_trivial) simp_all
  finally show ?thesis using False by simp
qed

lemma sint_byte:
  "sint (c :: byte) = (if unat c < 128 then int (unat c) else int (unat c) - 256)"
proof -
  have u: "uint c < 256" using uint_bounded [of c] by simp
  have "sint c = signed_take_bit 7 (uint c)" unfolding sint_uint by simp
  also have "\<dots> = take_bit (Suc 7) (uint c + 2 ^ 7) - 2 ^ 7"
    by (rule signed_take_bit_eq_take_bit_shift)
  also have "\<dots> = (uint c + 128) mod 256 - 128" by (simp only: take_bit_eq_mod) simp
  also have "\<dots> = (if uint c < 128 then uint c else uint c - 256)"
    using u by (intro mod_256_centred) simp_all
  finally have s: "sint c = (if uint c < 128 then uint c else uint c - 256)" .
  have i: "uint c = int (unat c)" by simp
  have "(uint c < 128) = (unat c < 128)" unfolding unat_eq_nat_uint by linarith
  with s show ?thesis by (simp only: i)
qed

lemma unat_byte_mod32: "unat (c mod 32 :: byte) = unat c mod 32"
  by (simp add: unat_mod_distrib)

lemma mod32_window:
  fixes n :: nat
  assumes "a \<le> n" and "n < a + 32" and "32 dvd a"
  shows "n mod 32 = n - a"
proof -
  from assms(3) obtain k where "a = 32 * k" by (auto simp: dvd_def)
  with assms(1) have "n = (n - a) + 32 * k" by simp
  then have "n mod 32 = (n - a) mod 32" by (metis mod_mult_self2)
  with assms show ?thesis by simp
qed

lemma byte_nonzero_iff: "(c :: byte) \<noteq> 0 \<longleftrightarrow> 0 < unat c"
  by (simp add: unat_gt_0)

section \<open>Word identifiers\<close>

lemma unat_of_nat_wid: "i < 65536 \<Longrightarrow> unat (of_nat i :: wid) = i"
  by (simp add: unat_of_nat)

lemma of_nat_wid_wraps: "(of_nat 65536 :: wid) = 0"
  by simp

section \<open>Lists\<close>

lemma filter_idem_pred: "(\<And>x. P (f x) = P x) \<Longrightarrow> filter P (map f xs) = map f (filter P xs)"
  by (induction xs) auto

lemma list_all_filter_id: "list_all P xs \<Longrightarrow> filter P xs = xs"
  by (induction xs) auto

lemma list_all_map_id: "list_all (\<lambda>x. f x = x) xs \<Longrightarrow> map f xs = xs"
  by (induction xs) auto

lemma length_filter_less_le: "length (filter P xs) \<le> length xs"
  by simp

lemma set_mset_eq_set: "mset xs = mset ys \<Longrightarrow> set xs = set ys"
  by (rule mset_eq_setD)

lemma count_list_replicate: "count_list (replicate n x) y = (if x = y then n else 0)"
  by (induction n) auto

lemma count_list_concat_map:
  "count_list (concat (map f xs)) y = sum_list (map (\<lambda>x. count_list (f x) y) xs)"
  by (induction xs) auto

lemma count_mset_list: "count (mset xs) y = count_list xs y"
  by (induction xs) auto

lemma filter_eq_single: "r < a \<Longrightarrow> filter (\<lambda>i. i = r) [0..<a] = [r]" for r a :: nat
proof (induction a)
  case 0
  then show ?case by simp
next
  case (Suc a)
  show ?case
  proof (cases "r = a")
    case True
    then show ?thesis by (simp add: filter_empty_conv)
  next
    case False
    with Suc have "filter (\<lambda>i. i = r) [0..<a] = [r]" by simp
    with False show ?thesis by simp
  qed
qed

lemma upt_block: "[0..<a * Suc b] = [0..<a * b] @ map (\<lambda>i. a * b + i) [0..<a]"
proof -
  have "[0..<a * b + a] = [0..<a * b] @ [a * b..<a * b + a]"
    by (rule upt_add_eq_append) simp
  moreover have "[a * b..<a * b + a] = map (\<lambda>i. a * b + i) [0..<a]"
    by (simp add: map_add_upt add.commute)
  moreover have "a * Suc b = a * b + a" by simp
  ultimately show ?thesis by (simp only:)
qed

text \<open>Among the numbers below \<open>a * b\<close>, exactly \<open>b\<close> have a given residue modulo \<open>a\<close>.\<close>

lemma length_filter_mod:
  assumes "r < a"
  shows "length (filter (\<lambda>x. x mod a = r) [0..<a * b]) = b"
proof (induction b)
  case 0
  show ?case by simp
next
  case (Suc b)
  have "filter (\<lambda>x. x mod a = r) (map (\<lambda>i. a * b + i) [0..<a])
      = map (\<lambda>i. a * b + i) (filter (\<lambda>i. i = r) [0..<a])"
    unfolding filter_map o_def by (rule arg_cong [where f = "map _"], rule filter_cong) auto
  then have "filter (\<lambda>x. x mod a = r) (map (\<lambda>i. a * b + i) [0..<a]) = [a * b + r]"
    using assms by (simp add: filter_eq_single)
  then show ?case using Suc by (simp only: upt_block filter_append length_append) simp
qed

text \<open>A counting loop \<^verbatim>\<open>for (k = 0; k < n; ++k)\<close> keeps what each round keeps.\<close>

lemma fold_upt_invariant:
  assumes "P 0 s" and "\<And>k s. k < n \<Longrightarrow> P k s \<Longrightarrow> P (Suc k) (f k s)"
  shows "P n (fold f [0..<n] s)"
  using assms(2)
proof (induction n)
  case 0
  from assms(1) show ?case by simp
next
  case (Suc n)
  then have "P n (fold f [0..<n] s)" by simp
  with Suc.prems [of n] show ?case by simp
qed

lemma all_less8_split:
  "(\<forall>i<8. P i) \<longleftrightarrow> (\<forall>i<6. P i) \<and> P 6 \<and> P 7" for P :: "nat \<Rightarrow> bool"
proof
  assume R: "(\<forall>i<6. P i) \<and> P 6 \<and> P 7"
  show "\<forall>i<8. P i"
  proof (intro allI impI)
    fix i :: nat assume "i < 8"
    then consider "i < 6" | "i = 6" | "i = 7" by linarith
    then show "P i" using R by cases auto
  qed
qed auto

section \<open>Bits\<close>

lemma take_bit_eq_iff_bits:
  "take_bit n x = take_bit n y \<longleftrightarrow> (\<forall>i<n. bit x i = bit y i)" for x y :: nat
  by (auto simp: bit_eq_iff bit_take_bit_iff)

lemma odd_drop_bit_and_1: "(drop_bit p m AND 1) \<noteq> 0 \<longleftrightarrow> bit m p" for m :: "'a::len word"
  by (simp add: and_one_eq bit_iff_odd_drop_bit odd_iff_mod_2_eq_one)

section \<open>Maps\<close>

definition lookup_default :: "'v \<Rightarrow> ('k \<rightharpoonup> 'v) \<Rightarrow> 'k \<Rightarrow> 'v" where
  "lookup_default d m k = (case m k of None \<Rightarrow> d | Some v \<Rightarrow> v)"

lemma lookup_default_upd [simp]:
  "lookup_default d (m(k \<mapsto> v)) k' = (if k' = k then v else lookup_default d m k')"
  by (simp add: lookup_default_def)

lemma lookup_default_empty [simp]: "lookup_default d Map.empty k = d"
  by (simp add: lookup_default_def)

lemma lookup_default_Some [simp]: "m k = Some v \<Longrightarrow> lookup_default d m k = v"
  by (simp add: lookup_default_def)

lemma lookup_default_None [simp]: "m k = None \<Longrightarrow> lookup_default d m k = d"
  by (simp add: lookup_default_def)

end
