(* ===== verification/Text_Normalizer.thy ===== *)
theory Text_Normalizer
  imports XW_Prelude
begin

text \<open>
  The text normalizer of \<^verbatim>\<open>src/dictionary.cpp\<close>: \<^verbatim>\<open>Dictionary::toupper\<close> (both overloads),
  \<^verbatim>\<open>isalpha\<close>, \<^verbatim>\<open>dosToWinCode\<close>, \<^verbatim>\<open>cleanString\<close>, and their composition as
  \<^verbatim>\<open>loadDictionary\<close> applies it to every raw word. Characters are bytes; the comparisons of
  the source are made on \<^verbatim>\<open>uint8_t(c)\<close>, that is on \<open>unat c\<close>, and its arithmetic on
  \<^verbatim>\<open>char\<close> wraps modulo 256, as \<open>+\<close> and \<open>-\<close> on \<open>8 word\<close> do.

  The constant \<^verbatim>\<open>CYRILLIC_A\<close> is declared in \<^verbatim>\<open>dictionary.hpp\<close>, which is not among the
  sources; the value 224 (the small letter a of code page 1251) is the one for which
  the three ranges of the code are the letter ranges of the DOS and Windows code pages.
\<close>

section \<open>Definitions\<close>

definition CYRILLIC_A :: nat where
  "CYRILLIC_A = 224"

definition toupper_char :: "byte \<Rightarrow> byte" where
  "toupper_char c = (if CYRILLIC_A \<le> unat c then c - 32 else c)"

definition toupper :: "str \<Rightarrow> str" where
  "toupper capsWord = map toupper_char capsWord"

definition isalpha :: "byte \<Rightarrow> bool" where
  "isalpha c \<longleftrightarrow> CYRILLIC_A - 32 \<le> unat c"

definition dosToWin_char :: "byte \<Rightarrow> byte" where
  "dosToWin_char c =
     (if CYRILLIC_A - 96 \<le> unat c \<and> unat c < CYRILLIC_A - 32 then c + 64 else c)"

definition dosToWinCode :: "str \<Rightarrow> str" where
  "dosToWinCode winWord = map dosToWin_char winWord"

definition cleanString :: "str \<Rightarrow> str" where
  "cleanString dirtyString = filter isalpha dirtyString"

text \<open>The canonical key of a raw word, as \<^verbatim>\<open>loadDictionary\<close> computes it.\<close>

definition clean_key :: "str \<Rightarrow> str" where
  "clean_key nextWord = toupper (cleanString (dosToWinCode nextWord))"

text \<open>
  Reference notions, not code: the capital letters of code page 1251, and the letter a
  byte denotes in any of the four encodings (DOS capital, DOS small, Windows capital,
  Windows small), which all agree modulo 32.
\<close>

definition is_upper :: "byte \<Rightarrow> bool" where
  "is_upper c \<longleftrightarrow> 192 \<le> unat c \<and> unat c < 224"

definition letter_of :: "byte \<Rightarrow> byte" where
  "letter_of c = 192 + c mod 32"

definition canonical_ref :: "str \<Rightarrow> str" where
  "canonical_ref w = map letter_of (filter (\<lambda>c. 128 \<le> unat c) w)"

lemmas [xw_defs] =
  CYRILLIC_A_def toupper_char_def isalpha_def dosToWin_char_def is_upper_def

lemmas str_defs = toupper_def dosToWinCode_def cleanString_def clean_key_def

section \<open>Characters\<close>

lemma unat_toupper_char:
  "unat (toupper_char c) = (if 224 \<le> unat c then unat c - 32 else unat c)"
  by (simp add: xw_defs unat_byte_sub)

lemma unat_dosToWin_char:
  "unat (dosToWin_char c) = (if 128 \<le> unat c \<and> unat c < 192 then unat c + 64 else unat c)"
  by (simp add: xw_defs unat_byte_add)

lemma unat_letter_of: "unat (letter_of c) = 192 + unat c mod 32"
proof -
  have "unat (c mod 32) < 32"
    by (simp add: unat_byte_mod32)
  then show ?thesis
    by (simp add: letter_of_def unat_byte_add unat_byte_mod32)
qed

lemmas unat_char_simps = unat_toupper_char unat_dosToWin_char unat_letter_of

lemma isalpha_iff: "isalpha c \<longleftrightarrow> 192 \<le> unat c"
  by (simp add: xw_defs)

lemma is_upper_letter_of [simp]: "is_upper (letter_of c)"
  by (simp add: is_upper_def unat_letter_of)

lemma toupper_char_idem [simp]: "toupper_char (toupper_char c) = toupper_char c"
  using unat_byte_less [of c] by (intro byte_eqI) (simp add: unat_char_simps)

lemma dosToWin_char_idem [simp]: "dosToWin_char (dosToWin_char c) = dosToWin_char c"
  using unat_byte_less [of c] by (intro byte_eqI) (simp add: unat_char_simps)

lemma isalpha_toupper_char [simp]: "isalpha (toupper_char c) = isalpha c"
  by (auto simp: isalpha_iff unat_char_simps)

lemma isalpha_dosToWin_char: "isalpha (dosToWin_char c) \<longleftrightarrow> 128 \<le> unat c"
  by (auto simp: isalpha_iff unat_char_simps)

lemma is_upper_fixed:
  assumes "is_upper c"
  shows "toupper_char c = c" and "dosToWin_char c = c" and "isalpha c"
  using assms by (simp_all add: xw_defs)

lemma is_upper_nonzero: "is_upper c \<Longrightarrow> c \<noteq> 0"
  by (auto simp: is_upper_def)

text \<open>The four encodings of a letter differ by multiples of 32.\<close>

lemma unat_letter_of_cases:
  "unat (letter_of c) =
     (if unat c < 32 then unat c + 192 else if unat c < 64 then unat c + 160
      else if unat c < 96 then unat c + 128 else if unat c < 128 then unat c + 96
      else if unat c < 160 then unat c + 64 else if unat c < 192 then unat c + 32
      else if unat c < 224 then unat c else unat c - 32)"
  using unat_byte_less [of c]
    mod32_window [of 0 "unat c"] mod32_window [of 32 "unat c"] mod32_window [of 64 "unat c"]
    mod32_window [of 96 "unat c"] mod32_window [of 128 "unat c"] mod32_window [of 160 "unat c"]
    mod32_window [of 192 "unat c"] mod32_window [of 224 "unat c"]
  by (simp add: unat_letter_of)

text \<open>One character through the three passes: dropped below 128, else its letter.\<close>

lemma char_pipeline:
  assumes "128 \<le> unat c"
  shows "toupper_char (dosToWin_char c) = letter_of c"
  using assms by (intro byte_eqI) (simp add: unat_toupper_char unat_dosToWin_char unat_letter_of_cases)

section \<open>Strings\<close>

lemma length_toupper [simp]: "length (toupper w) = length w"
  by (simp add: toupper_def)

lemma length_dosToWinCode [simp]: "length (dosToWinCode w) = length w"
  by (simp add: dosToWinCode_def)

lemma toupper_idem [simp]: "toupper (toupper w) = toupper w"
  by (simp add: toupper_def)

lemma dosToWinCode_idem [simp]: "dosToWinCode (dosToWinCode w) = dosToWinCode w"
  by (simp add: dosToWinCode_def)

lemma cleanString_toupper: "cleanString (toupper w) = toupper (cleanString w)"
  by (simp add: cleanString_def toupper_def filter_idem_pred)

lemma clean_key_Nil [simp]: "clean_key [] = []"
  by (simp add: str_defs)

lemma clean_key_Cons:
  "clean_key (c # w) = (if 128 \<le> unat c then letter_of c # clean_key w else clean_key w)"
  by (simp add: str_defs isalpha_dosToWin_char char_pipeline)

lemma clean_key_append: "clean_key (u @ v) = clean_key u @ clean_key v"
  by (simp add: str_defs)

lemma set_clean_key: "set (clean_key w) = letter_of ` {c \<in> set w. 128 \<le> unat c}"
  by (induction w) (auto simp: clean_key_Cons)

lemma clean_key_upper: "list_all is_upper (clean_key w)"
  by (induction w) (simp_all add: clean_key_Cons)

lemma letter_of_upper: "is_upper c \<Longrightarrow> letter_of c = c"
  by (rule byte_eqI) (simp add: unat_letter_of_cases is_upper_def)

section \<open>Properties of the canonical key\<close>

lemma clean_key_fixed: "list_all is_upper w \<Longrightarrow> clean_key w = w"
  by (induction w) (auto simp: clean_key_Cons letter_of_upper is_upper_def)

lemma clean_key_idem: "clean_key (clean_key w) = clean_key w"
  by (rule clean_key_fixed) (rule clean_key_upper)

lemma letter_of_toupper_char: "letter_of (toupper_char c) = letter_of c"
  using unat_byte_less [of c]
  by (intro byte_eqI) (auto simp: unat_toupper_char unat_letter_of_cases)

lemma letter_of_dosToWin_char: "letter_of (dosToWin_char c) = letter_of c"
  using unat_byte_less [of c]
  by (intro byte_eqI) (auto simp: unat_dosToWin_char unat_letter_of_cases)

lemma clean_key_toupper: "clean_key (toupper w) = clean_key w"
proof (induction w)
  case Nil
  show ?case by (simp add: toupper_def)
next
  case (Cons c w)
  have "128 \<le> unat (toupper_char c) \<longleftrightarrow> 128 \<le> unat c"
    by (auto simp: unat_char_simps)
  with Cons show ?case
    by (simp add: toupper_def clean_key_Cons letter_of_toupper_char)
qed

lemma clean_key_dosToWinCode: "clean_key (dosToWinCode w) = clean_key w"
  by (simp add: clean_key_def)

lemma length_clean_key: "length (clean_key w) \<le> length w"
  by (simp add: str_defs)

lemma clean_key_nonzero: "0 \<notin> set (clean_key w)"
  using clean_key_upper [of w] by (auto simp: list_all_iff dest: is_upper_nonzero)

lemma clean_key_ascii: "list_all (\<lambda>c. unat c < 128) w \<Longrightarrow> clean_key w = []"
  by (induction w) (auto simp: clean_key_Cons)

section \<open>The claims about the normalizer\<close>

text \<open>
  C17 (equivalence). The three passes of the code over a raw word (code page
  conversion, removal of non-letters, upper-casing) compute the one-pass reference:
  bytes below 128 are dropped and every other byte is replaced by the capital letter of
  code page 1251 with the same residue modulo 32.
\<close>

theorem clean_key_is_canonical_ref: "clean_key w = canonical_ref w"
  by (induction w) (simp_all add: clean_key_Cons canonical_ref_def)

text \<open>
  C39 (round trip). A canonical key consists of capital letters only, and a word that
  already consists of capital letters is its own canonical key; so normalizing twice is
  normalizing once.
\<close>

theorem canonical_roundtrip:
  "list_all is_upper (clean_key w) \<and> (list_all is_upper w \<longrightarrow> clean_key w = w)
   \<and> clean_key (clean_key w) = clean_key w"
  by (simp add: clean_key_upper clean_key_fixed clean_key_idem)

theorem canonical_roundtrip_witness:
  "list_all is_upper [192, 223 :: byte] \<and> clean_key [192, 223] = [192, 223]"
  using canonical_roundtrip [of "[192, 223]"] by (simp add: is_upper_def)

text \<open>
  Spellings that differ in case or in code page have the same key:
  upper-casing the raw word or converting it from the DOS code page first changes
  nothing, and the key of a concatenation is the concatenation of the keys.
\<close>

theorem canonical_insensitive:
  "clean_key (toupper w) = clean_key w \<and> clean_key (dosToWinCode w) = clean_key w
   \<and> clean_key (u @ v) = clean_key u @ clean_key v"
  by (simp add: clean_key_toupper clean_key_dosToWinCode clean_key_append)

text \<open>
  C40 (error). Latin letters are not letters for the normalizer: a raw word made of
  bytes below 128 has the empty canonical key, so the entries \<^verbatim>\<open>CAT\<close> and \<^verbatim>\<open>CAR\<close> of the
  specification's example are both loaded as the empty word.
\<close>

theorem ascii_words_vanish: "list_all (\<lambda>c. unat c < 128) w \<Longrightarrow> clean_key w = []"
  by (rule clean_key_ascii)

theorem ascii_words_vanish_witness:
  "clean_key [67, 65, 84] = [] \<and> clean_key [67, 65, 82] = []"
  using ascii_words_vanish [of "[67, 65, 84]"] ascii_words_vanish [of "[67, 65, 82]"] by simp

end
