(* ===== verification/Key_Packing.thy ===== *)
theory Key_Packing
  imports XW_Prelude
begin

text \<open>
  The key packing of \<^verbatim>\<open>src/dictionary.cpp\<close>: the two overloads of \<^verbatim>\<open>Dictionary::getKey\<close>.
  Both are a \<^verbatim>\<open>switch\<close> on the length of the word whose cases fall through, so the
  statement under \<^verbatim>\<open>case k\<close> runs exactly when the word has at least \<open>k\<close> letters
  (\<^verbatim>\<open>default\<close> enters at \<^verbatim>\<open>case 6\<close>). Letter \<open>i\<close> goes to byte \<open>i\<close> of a 64-bit key when bit
  \<open>i\<close> of the mask is set. The theory gives the byte view of a key, the equivalence of
  the switch with a loop, when two keys are equal, which masks produce the key of a
  pattern, and how many of the 64 masks of \<^verbatim>\<open>addToFastSearch\<close> produce the same key.
\<close>

section \<open>Definitions\<close>

definition mask_bit :: "mask32 \<Rightarrow> nat \<Rightarrow> bool" where
  "mask_bit msk p \<longleftrightarrow> (drop_bit p msk AND 1) \<noteq> 0"

definition getKey_mask :: "mask32 \<Rightarrow> str \<Rightarrow> key" where
  "getKey_mask msk word =
     (let n = length word;
          key = 0;
          key = (if 6 \<le> n
                 then key OR (if mask_bit msk 5 then push_bit 40 (ucast (word ! 5)) else 0) else key);
          key = (if 5 \<le> n
                 then key OR (if mask_bit msk 4 then push_bit 32 (ucast (word ! 4)) else 0) else key);
          key = (if 4 \<le> n
                 then key OR (if mask_bit msk 3 then push_bit 24 (ucast (word ! 3)) else 0) else key);
          key = (if 3 \<le> n
                 then key OR (if mask_bit msk 2 then push_bit 16 (ucast (word ! 2)) else 0) else key);
          key = (if 2 \<le> n
                 then key OR (if mask_bit msk 1 then push_bit 8 (ucast (word ! 1)) else 0) else key);
          key = (if 1 \<le> n
                 then key OR (if mask_bit msk 0 then push_bit 0 (ucast (word ! 0)) else 0) else key)
      in key)"

definition getKey :: "str \<Rightarrow> key" where
  "getKey word =
     (let n = length word;
          key = 0;
          key = (if 6 \<le> n then key OR push_bit 40 (ucast (word ! 5)) else key);
          key = (if 5 \<le> n then key OR push_bit 32 (ucast (word ! 4)) else key);
          key = (if 4 \<le> n then key OR push_bit 24 (ucast (word ! 3)) else key);
          key = (if 3 \<le> n then key OR push_bit 16 (ucast (word ! 2)) else key);
          key = (if 2 \<le> n then key OR push_bit 8 (ucast (word ! 1)) else key);
          key = (if 1 \<le> n then key OR push_bit 0 (ucast (word ! 0)) else key)
      in key)"

text \<open>The masks \<^verbatim>\<open>addToFastSearch\<close> runs through: \<^verbatim>\<open>for (mask = 0u; mask < 64u; ++mask)\<close>.\<close>

definition masks :: "mask32 list" where
  "masks = map of_nat [0..<64]"

text \<open>
  Reference notions, not code. \<open>key_byte k i\<close> is byte \<open>i\<close> of a key; \<open>key_sel\<close> is the
  byte a mask selects from a word; \<open>getKey_loop\<close> is the loop over
  \<open>min (length word) 6\<close> positions that the switch unrolls; \<open>matches any p w\<close> says that
  the pattern \<open>p\<close>, with \<open>any\<close> as its placeholder, admits the word \<open>w\<close>; \<open>agrees6\<close> is
  \<open>matches\<close> on the first six positions with placeholder 0, which is all a key can see;
  \<open>pattern_bits\<close> is the mask of the known positions of a pattern.
\<close>

definition key_byte :: "key \<Rightarrow> nat \<Rightarrow> byte" where
  "key_byte k i = ucast (drop_bit (8 * i) k)"

definition key_sel :: "(nat \<Rightarrow> bool) \<Rightarrow> str \<Rightarrow> nat \<Rightarrow> byte" where
  "key_sel inc w i = (if i < length w \<and> i < 6 \<and> inc i then w ! i else 0)"

definition getKey_loop :: "mask32 \<Rightarrow> str \<Rightarrow> key" where
  "getKey_loop msk word =
     fold (\<lambda>i key. key OR (if bit msk i then push_bit (8 * i) (ucast (word ! i)) else 0))
       [0..<min (length word) 6] 0"

definition matches :: "byte \<Rightarrow> str \<Rightarrow> str \<Rightarrow> bool" where
  "matches any p w \<longleftrightarrow> list_all2 (\<lambda>a b. a = any \<or> a = b) p w"

definition agrees6 :: "str \<Rightarrow> str \<Rightarrow> bool" where
  "agrees6 p w \<longleftrightarrow> matches 0 (take 6 p) (take 6 w)"

definition pattern_bits :: "str \<Rightarrow> nat" where
  "pattern_bits p = horner_sum of_bool 2 (map (\<lambda>c. c \<noteq> 0) (take 6 p))"

section \<open>Bytes of a key\<close>

lemma mask_bit_iff: "mask_bit m p \<longleftrightarrow> bit m p"
  by (simp add: mask_bit_def odd_drop_bit_and_1)

lemma key_byte_0 [simp]: "key_byte 0 i = 0"
  by (simp add: key_byte_def)

lemma key_byte_or [simp]: "key_byte (a OR b) i = key_byte a i OR key_byte b i"
  by (rule bit_word_eqI) (simp add: key_byte_def bit_simps)

lemma key_byte_push:
  assumes "j < 8"
  shows "key_byte (push_bit (8 * j) (ucast (c :: byte))) i = (if i = j then c else 0)"
proof (rule bit_word_eqI)
  fix n assume "n < LENGTH(8)"
  then have n: "n < 8" by simp
  show "bit (key_byte (push_bit (8 * j) (ucast c)) i) n = bit (if i = j then c else 0) n"
  proof (cases "i = j")
    case True
    with n assms show ?thesis by (auto simp: key_byte_def bit_simps)
  next
    case False
    then have "8 * i + n < 8 * j \<or> 8 \<le> 8 * i + n - 8 * j" using n by arith
    with False n show ?thesis
      by (auto simp: key_byte_def bit_simps dest: bit_imp_le_length)
  qed
qed

lemmas key_byte_push_num =
  key_byte_push [of 0, simplified] key_byte_push [of 1, simplified]
  key_byte_push [of 2, simplified] key_byte_push [of 3, simplified]
  key_byte_push [of 4, simplified] key_byte_push [of 5, simplified]

lemma key_eq_iff: "k = k' \<longleftrightarrow> (\<forall>i<8. key_byte k i = key_byte k' i)" for k k' :: key
proof
  assume R: "\<forall>i<8. key_byte k i = key_byte k' i"
  show "k = k'"
  proof (rule bit_word_eqI)
    fix n assume "n < LENGTH(64)"
    then have n: "n div 8 < 8" by simp
    have *: "bit x n = bit (key_byte x (n div 8)) (n mod 8)" for x :: key
      by (simp add: key_byte_def bit_simps)
    from R n show "bit k n = bit k' n" by (simp add: *)
  qed
qed simp

lemma key_sel_beyond [simp]: "6 \<le> i \<Longrightarrow> key_sel inc w i = 0"
  by (simp add: key_sel_def)

lemma key_byte_getKey_mask: "key_byte (getKey_mask m w) i = key_sel (mask_bit m) w i"
  by (auto simp: getKey_mask_def key_sel_def Let_def key_byte_push_num)

lemma key_byte_getKey: "key_byte (getKey w) i = key_sel (\<lambda>_. True) w i"
  by (auto simp: getKey_def key_sel_def Let_def key_byte_push_num)

lemma key_byte_loop:
  assumes "n \<le> 8"
  shows "key_byte (fold (\<lambda>i key. key OR (if inc i then push_bit (8 * i) (ucast (f i)) else 0))
            [0..<n] k0) j
         = key_byte k0 j OR (if j < n \<and> inc j then f j else 0)"
  using assms
proof (induction n)
  case 0
  show ?case by simp
next
  case (Suc n)
  then show ?case by (auto simp: key_byte_push)
qed

lemmas key_bytes = key_eq_iff key_byte_getKey_mask key_byte_getKey all_less8_split

section \<open>The switch is the loop\<close>

lemma getKey_loop_eq: "getKey_mask m w = getKey_loop m w"
proof -
  have "key_byte (getKey_loop m w) i = key_sel (mask_bit m) w i" for i
    by (simp add: getKey_loop_def key_byte_loop key_sel_def mask_bit_iff)
  then show ?thesis by (simp add: key_eq_iff key_byte_getKey_mask)
qed

section \<open>Equal keys\<close>

lemma getKey_mask_eq_iff:
  "getKey_mask m w = getKey_mask m' w' \<longleftrightarrow>
     (\<forall>i<6. key_sel (mask_bit m) w i = key_sel (mask_bit m') w' i)"
  by (simp add: key_bytes)

lemma mask_bit_63: "mask_bit 63 i \<longleftrightarrow> i < 6"
proof -
  have *: "(63 :: mask32) = mask 6" by (simp add: mask_eq_exp_minus_1)
  show ?thesis by (simp only: mask_bit_iff * bit_mask_iff) auto
qed

lemma getKey_as_mask: "getKey w = getKey_mask 63 w"
  by (simp add: key_bytes key_sel_def mask_bit_63)

lemma mask_bit_of_nat: "mask_bit (of_nat x) i \<longleftrightarrow> i < 32 \<and> bit x i"
  by (simp add: mask_bit_iff bit_simps)

lemma nth_take6_nonzero:
  assumes "0 \<notin> set (take 6 w)" and "i < min (length w) 6"
  shows "w ! i \<noteq> 0"
proof -
  from assms(2) have "take 6 w ! i \<in> set (take 6 w)" by (intro nth_mem) simp
  with assms show ?thesis by auto
qed

text \<open>The key of a word with nonzero letters determines the low bits of the mask.\<close>

lemma getKey_mask_inj_mask:
  assumes "0 \<notin> set (take 6 w)"
  shows "getKey_mask m w = getKey_mask m' w \<longleftrightarrow>
         (\<forall>i<min (length w) 6. mask_bit m i = mask_bit m' i)"
  unfolding getKey_mask_eq_iff
proof
  assume L: "\<forall>i<6. key_sel (mask_bit m) w i = key_sel (mask_bit m') w i"
  show "\<forall>i<min (length w) 6. mask_bit m i = mask_bit m' i"
  proof (intro allI impI)
    fix i assume i: "i < min (length w) 6"
    with L have "key_sel (mask_bit m) w i = key_sel (mask_bit m') w i" by simp
    with i nth_take6_nonzero [OF assms i] show "mask_bit m i = mask_bit m' i"
      by (auto simp: key_sel_def split: if_splits)
  qed
next
  assume "\<forall>i<min (length w) 6. mask_bit m i = mask_bit m' i"
  then show "\<forall>i<6. key_sel (mask_bit m) w i = key_sel (mask_bit m') w i"
    by (auto simp: key_sel_def)
qed

lemma getKey_mask_of_nat_eq:
  assumes "0 \<notin> set (take 6 w)"
  shows "getKey_mask (of_nat x) w = getKey_mask (of_nat y) w \<longleftrightarrow>
         x mod 2 ^ min (length w) 6 = y mod 2 ^ min (length w) 6"
proof -
  have "(\<forall>i<min (length w) 6. (i < 32 \<and> bit x i) = (i < 32 \<and> bit y i))
      \<longleftrightarrow> (\<forall>i<min (length w) 6. bit x i = bit y i)"
    by auto
  then show ?thesis
    by (simp only: getKey_mask_inj_mask [OF assms] mask_bit_of_nat
        flip: take_bit_eq_mod take_bit_eq_iff_bits)
qed

section \<open>The 64 masks\<close>

lemma length_masks [simp]: "length masks = 64"
  by (simp add: masks_def)

lemma mem_masks_iff: "m \<in> set masks \<longleftrightarrow> unat m < 64"
proof
  assume "m \<in> set masks"
  then obtain x where "x < 64" "m = of_nat x" by (auto simp: masks_def)
  then show "unat m < 64" by (simp add: unat_of_nat)
next
  assume "unat m < 64"
  then have "m = of_nat (unat m)" "unat m \<in> set [0..<64]" by simp_all
  then show "m \<in> set masks" unfolding masks_def by (metis image_eqI set_map)
qed

text \<open>
  How often a key occurs among the keys of the 64 masks of one word: not at all, or
  once for every setting of the mask bits beyond the length of the word.
\<close>

lemma mask_multiplicity:
  assumes "0 \<notin> set (take 6 w)"
  shows "length (filter (\<lambda>m. getKey_mask m w = k) masks) =
    (if \<exists>m\<in>set masks. getKey_mask m w = k then 2 ^ (6 - min (length w) 6) else 0)"
proof (cases "\<exists>m\<in>set masks. getKey_mask m w = k")
  case False
  then show ?thesis by (simp add: filter_empty_conv)
next
  case True
  let ?n = "min (length w) 6"
  from True obtain x0 where x0: "getKey_mask (of_nat x0) w = k"
    by (auto simp: masks_def)
  have "length (filter (\<lambda>m. getKey_mask m w = k) masks)
      = length (filter (\<lambda>x. getKey_mask (of_nat x) w = k) [0..<64])"
    by (simp add: masks_def filter_map o_def)
  also have "\<dots> = length (filter (\<lambda>x. x mod 2 ^ ?n = x0 mod 2 ^ ?n) [0..<2 ^ ?n * 2 ^ (6 - ?n)])"
  proof -
    have "(2::nat) ^ ?n * 2 ^ (6 - ?n) = 64"
      by (simp flip: power_add)
    then show ?thesis
      by (simp only: getKey_mask_of_nat_eq [OF assms] flip: x0)
  qed
  also have "\<dots> = 2 ^ (6 - ?n)"
    by (rule length_filter_mod) simp
  finally show ?thesis using True by simp
qed

section \<open>Patterns\<close>

lemma matches_iff_nth:
  "matches any p w \<longleftrightarrow> length p = length w \<and> (\<forall>i<length w. p ! i = any \<or> p ! i = w ! i)"
  by (auto simp: matches_def list_all2_conv_all_nth)

lemma agrees6_iff_nth:
  assumes "length p = length w"
  shows "agrees6 p w \<longleftrightarrow> (\<forall>i<min (length w) 6. p ! i = 0 \<or> p ! i = w ! i)"
  using assms by (auto simp: agrees6_def matches_iff_nth)

lemma matches_agrees6: "matches 0 p w \<Longrightarrow> agrees6 p w"
  by (simp add: agrees6_def matches_def)

lemma agrees6_short: "length w \<le> 6 \<Longrightarrow> agrees6 p w \<longleftrightarrow> matches 0 (take 6 p) w"
  by (simp add: agrees6_def)

lemma bit_pattern_bits: "bit (pattern_bits p) i \<longleftrightarrow> i < min (length p) 6 \<and> p ! i \<noteq> 0"
  by (auto simp: pattern_bits_def bit_horner_sum_bit_iff)

lemma pattern_bits_less: "pattern_bits p < 64"
proof -
  have "pattern_bits p < 2 ^ length (map (\<lambda>c. c \<noteq> 0) (take 6 p))"
    unfolding pattern_bits_def by (rule horner_sum_of_bool_2_less)
  also have "\<dots> \<le> 2 ^ 6" by (intro power_increasing) simp_all
  finally show ?thesis by simp
qed

lemma getKey_pattern_iff:
  assumes "length p = length w"
  shows "getKey p = getKey_mask m w \<longleftrightarrow>
    (\<forall>i<min (length w) 6. p ! i = (if mask_bit m i then w ! i else 0))"
  using assms
  by (auto simp: getKey_as_mask getKey_mask_eq_iff key_sel_def mask_bit_63)

text \<open>
  Some mask of the load loop gives a word the key of a pattern exactly when the
  pattern, read with 0 as its placeholder, agrees with the word on the first six
  positions.
\<close>

lemma ex_mask_iff:
  assumes len: "length p = length w"
  shows "(\<exists>m\<in>set masks. getKey p = getKey_mask m w) \<longleftrightarrow> agrees6 p w"
proof
  assume "\<exists>m\<in>set masks. getKey p = getKey_mask m w"
  then show "agrees6 p w"
    by (auto simp: getKey_pattern_iff [OF len] agrees6_iff_nth [OF len])
next
  assume A: "agrees6 p w"
  let ?m = "of_nat (pattern_bits p) :: mask32"
  have "?m \<in> set masks"
    using pattern_bits_less [of p] by (simp add: masks_def)
  moreover have "getKey p = getKey_mask ?m w"
    using A len
    by (auto simp: getKey_pattern_iff [OF len] agrees6_iff_nth [OF len] mask_bit_of_nat
        bit_pattern_bits)
  ultimately show "\<exists>m\<in>set masks. getKey p = getKey_mask m w" ..
qed


section \<open>What the packing guarantees\<close>

lemma key_byte_beyond: "6 \<le> i \<Longrightarrow> key_byte (getKey_mask m w) i = 0"
  by (simp add: key_byte_getKey_mask)

lemma bit_key_byte: "n < 8 \<Longrightarrow> bit (key_byte k i) n \<longleftrightarrow> bit k (8 * i + n)"
  by (simp add: key_byte_def bit_simps)

lemma key_high_bits:
  assumes "\<forall>i\<ge>6. key_byte k i = 0"
  shows "k < 2 ^ 48"
proof -
  have "\<not> bit k n" if "48 \<le> n" for n
  proof -
    from that have "6 \<le> n div 8" by simp
    with assms have "\<not> bit (key_byte k (n div 8)) (n mod 8)" by simp
    then show ?thesis by (simp add: bit_key_byte)
  qed
  then have "take_bit 48 k = k"
    by (intro bit_word_eqI) (auto simp: bit_simps not_le [symmetric])
  moreover have "take_bit 48 k < 2 ^ 48"
    unfolding take_bit_eq_mask by (rule and_mask_less_size) (simp add: word_size)
  ultimately show ?thesis by simp
qed

text \<open>
  C34 (equivalence). The fall-through \<^verbatim>\<open>switch\<close> of both overloads of \<^verbatim>\<open>getKey\<close> computes what
  a loop over the first \<open>min (length word) 6\<close> positions computes, and the overload without
  a mask is the overload with the mask \<open>0b111111\<close>.
\<close>

theorem switch_is_loop:
  "getKey_mask m w = getKey_loop m w \<and> getKey w = getKey_loop 63 w"
  by (simp add: getKey_as_mask getKey_loop_eq)

text \<open>
  A key uses the low 48 bits of the 64-bit word only.
\<close>

theorem key_fits_48_bits:
  "getKey_mask m w < 2 ^ 48 \<and> getKey w < 2 ^ 48"
  unfolding getKey_as_mask by (intro conjI key_high_bits allI impI key_byte_beyond)

text \<open>
  C6 (functional). For a pattern and a word of the same length, one of the 64 masks
  packs the word into the pattern's key exactly when the pattern agrees with the word
  on every one of the first six positions where the pattern is not the byte 0.
\<close>

theorem key_of_pattern:
  assumes "length p = length w"
  shows "(\<exists>m\<in>set masks. getKey p = getKey_mask m w) \<longleftrightarrow>
         (\<forall>i<min (length w) 6. p ! i = 0 \<or> p ! i = w ! i)"
  using ex_mask_iff [OF assms] agrees6_iff_nth [OF assms] by simp

theorem key_of_pattern_witness:
  "(\<exists>m\<in>set masks. getKey [202, 0, 210] = getKey_mask m [202, 206, 210])
   \<and> \<not> (\<exists>m\<in>set masks. getKey [202, 0, 196] = getKey_mask m [202, 206, 210])"
  using key_of_pattern [of "[202, 0, 210]" "[202, 206, 210]"]
    key_of_pattern [of "[202, 0, 196]" "[202, 206, 210]"]
  by (simp add: less_Suc_eq numeral_3_eq_3 all_conj_distrib)

text \<open>
  The masks are not reduced modulo the word's length: of the 64 masks,
  \<open>2 ^ (6 - min (length w) 6)\<close> pack a word without zero bytes into the key of a pattern
  that agrees with it, and none into the key of a pattern that does not.
\<close>

theorem masks_per_pattern:
  assumes "length p = length w" and "0 \<notin> set (take 6 w)"
  shows "length (filter (\<lambda>m. getKey_mask m w = getKey p) masks) =
    (if \<forall>i<min (length w) 6. p ! i = 0 \<or> p ! i = w ! i
     then 2 ^ (6 - min (length w) 6) else 0)"
proof -
  have "(\<exists>m\<in>set masks. getKey_mask m w = getKey p) \<longleftrightarrow> agrees6 p w"
    using ex_mask_iff [OF assms(1)] by (simp add: eq_commute)
  with mask_multiplicity [OF assms(2), of "getKey p"] show ?thesis
    by (simp add: agrees6_iff_nth [OF assms(1)])
qed

theorem masks_per_pattern_witness:
  "length (filter (\<lambda>m. getKey_mask m [202, 206, 210] = getKey [202, 0, 210]) masks) = 8
   \<and> length (filter (\<lambda>m. getKey_mask m [202, 206, 210] = getKey [202, 0, 196]) masks) = 0"
  using masks_per_pattern [of "[202, 0, 210]" "[202, 206, 210]"]
    masks_per_pattern [of "[202, 0, 196]" "[202, 206, 210]"]
  by (simp add: less_Suc_eq numeral_3_eq_3 all_conj_distrib)

text \<open>
  On strings without zero bytes the key determines the first six
  bytes and nothing else: two such strings have the same key exactly when their
  prefixes of length six are equal.
\<close>

theorem key_injective:
  assumes "0 \<notin> set w" and "0 \<notin> set w'"
  shows "getKey w = getKey w' \<longleftrightarrow> take 6 w = take 6 w'"
proof
  assume "take 6 w = take 6 w'"
  then have "key_sel (\<lambda>_. True) w i = key_sel (\<lambda>_. True) w' i" for i
    by (cases "i < 6") (auto simp: key_sel_def dest: arg_cong [where f = "\<lambda>xs. xs ! i"] arg_cong [where f = length])
  then show "getKey w = getKey w'" by (simp add: key_bytes)
next
  assume "getKey w = getKey w'"
  then have k: "\<And>i. i < 6 \<Longrightarrow> key_sel (\<lambda>_. True) w i = key_sel (\<lambda>_. True) w' i"
    by (simp add: key_bytes)
  have nz: "i < length w \<Longrightarrow> w ! i \<noteq> 0" "i < length w' \<Longrightarrow> w' ! i \<noteq> 0" for i
    using assms by (metis nth_mem)+
  have "min (length w) 6 = min (length w') 6"
  proof (rule ccontr)
    assume "min (length w) 6 \<noteq> min (length w') 6"
    then consider "min (length w) 6 < min (length w') 6" | "min (length w') 6 < min (length w) 6"
      by linarith
    then show False
    proof cases
      case 1
      with k [of "length w"] nz(2) [of "length w"] show False
        by (auto simp: key_sel_def min_def split: if_splits)
    next
      case 2
      with k [of "length w'"] nz(1) [of "length w'"] show False
        by (auto simp: key_sel_def min_def split: if_splits)
    qed
  qed
  moreover have "take 6 w ! i = take 6 w' ! i" if "i < length (take 6 w)" for i
    using k [of i] that calculation by (auto simp: key_sel_def min_def split: if_splits)
  ultimately show "take 6 w = take 6 w'" by (intro nth_equalityI) simp_all
qed

theorem key_injective_witness:
  "getKey [202, 206, 210, 202, 206, 210, 192] = getKey [202, 206, 210, 202, 206, 210, 193]
   \<and> getKey [202, 206] \<noteq> getKey [202, 207]"
  using key_injective [of "[202, 206, 210, 202, 206, 210, 192]" "[202, 206, 210, 202, 206, 210, 193]"]
    key_injective [of "[202, 206]" "[202, 207]"]
  by simp

end
