(* ===== verification/Word_Index.thy ===== *)
theory Word_Index
  imports Text_Normalizer Key_Packing "HOL-Library.AList"
begin

text \<open>
  The state and the operations of \<^verbatim>\<open>class Dictionary\<close> in \<^verbatim>\<open>src/dictionary.cpp\<close>:
  \<^verbatim>\<open>reset\<close>, \<^verbatim>\<open>addToFastSearch\<close>, the body and the loop of \<^verbatim>\<open>loadDictionary\<close>, \<^verbatim>\<open>getDirty\<close>,
  \<^verbatim>\<open>getExplanation\<close>, \<^verbatim>\<open>shuffle\<close>, \<^verbatim>\<open>isPossible\<close>, \<^verbatim>\<open>findPossible\<close> and the destructor.

  The object is a record. \<^verbatim>\<open>_fastSearch\<close>, an array of \<^verbatim>\<open>LONGEST_WORD\<close> maps from keys to
  vectors of 16-bit identifiers, is a list of partial maps whose length is
  \<^verbatim>\<open>LONGEST_WORD\<close> (the bound is declared in the header, which is not among the sources,
  so every theorem holds for every bound). \<^verbatim>\<open>_cacheSearchMap\<close> maps a pattern to a pointer
  to a vector allocated with \<^verbatim>\<open>new\<close>: it is an association list from patterns to
  addresses, beside a store \<open>heap\<close> from addresses to vectors and the next fresh address
  \<open>brk\<close>, so that allocation, sharing, leaking and deleting of the vectors are steps of
  the model. The view that \<^verbatim>\<open>findPossible\<close> returns is the record \<open>pattern_view\<close> of the
  three arguments the code gives to \<^verbatim>\<open>Pattern\<close>; the class itself is declared in the
  header, so reading a view (\<open>view_ids\<close>, \<open>view_words\<close>) is written from what the
  arguments are: a count, an iterator into the vector, and a function on identifiers.

  What is undefined behaviour in C++ is a value of type \<open>fault\<close> here: an index into
  \<^verbatim>\<open>_fastSearch\<close> or \<^verbatim>\<open>_allWords\<close> or a string beyond its end, a pointer that is used or
  deleted after it was deleted, a reference to a temporary that is returned.
\<close>

section \<open>State\<close>

datatype fault = OutOfBounds | DanglingPointer | DanglingReference

type_synonym bucket = "wid list"
type_synonym table = "key \<rightharpoonup> bucket"
type_synonym addr = nat

record dictionary =
  allWords :: "str list"
  dirtyDict :: "str \<rightharpoonup> str"
  explanationDict :: "str \<rightharpoonup> str"
  cacheSearchMap :: "(str \<times> addr) list"
  fastSearch :: "table list"
  heap :: "addr \<rightharpoonup> bucket"
  brk :: addr

definition LONGEST_WORD :: "dictionary \<Rightarrow> nat" where
  "LONGEST_WORD d = length (fastSearch d)"

definition ANY_CHAR :: byte where
  "ANY_CHAR = 0"

definition new_dictionary :: "nat \<Rightarrow> dictionary" where
  "new_dictionary longest =
     \<lparr>allWords = [], dirtyDict = Map.empty, explanationDict = Map.empty, cacheSearchMap = [],
      fastSearch = replicate longest Map.empty, heap = Map.empty, brk = 0\<rparr>"

section \<open>Containers\<close>

text \<open>\<^verbatim>\<open>std::map::emplace\<close> keeps the value of a key that is present.\<close>

definition emplace :: "('k \<rightharpoonup> 'v) \<Rightarrow> 'k \<Rightarrow> 'v \<Rightarrow> ('k \<rightharpoonup> 'v)" where
  "emplace m k v = (case m k of None \<Rightarrow> m(k \<mapsto> v) | Some _ \<Rightarrow> m)"

text \<open>\<^verbatim>\<open>table[key]\<close> inserts an empty vector under a key that is absent.\<close>

definition subscript :: "table \<Rightarrow> key \<Rightarrow> table" where
  "subscript t k = (case t k of None \<Rightarrow> t(k \<mapsto> []) | Some _ \<Rightarrow> t)"

definition push_back_at :: "table \<Rightarrow> key \<Rightarrow> wid \<Rightarrow> table" where
  "push_back_at t k index = (subscript t k)(k \<mapsto> the (subscript t k k) @ [index])"

text \<open>\<^verbatim>\<open>new std::vector<uint16_t>(v)\<close> and \<^verbatim>\<open>delete\<close>.\<close>

definition new_vector :: "bucket \<Rightarrow> dictionary \<Rightarrow> addr \<times> dictionary" where
  "new_vector v d = (brk d, d\<lparr>heap := (heap d)(brk d \<mapsto> v), brk := Suc (brk d)\<rparr>)"

definition delete_vector :: "addr \<Rightarrow> (addr \<rightharpoonup> bucket) \<Rightarrow> fault + (addr \<rightharpoonup> bucket)" where
  "delete_vector a h = (case h a of None \<Rightarrow> Inl DanglingPointer | Some _ \<Rightarrow> Inr (h(a := None)))"

section \<open>Loading\<close>

definition reset :: "dictionary \<Rightarrow> dictionary" where
  "reset d = d\<lparr>allWords := [], dirtyDict := Map.empty, explanationDict := Map.empty,
     cacheSearchMap := [], fastSearch := map (\<lambda>_. Map.empty) (fastSearch d)\<rparr>"

definition addToFastSearch :: "str \<Rightarrow> wid \<Rightarrow> dictionary \<Rightarrow> fault + dictionary" where
  "addToFastSearch newWord index d =
     (if length newWord < LONGEST_WORD d
      then let currentFastSearch = fastSearch d ! length newWord;
               currentFastSearch = fold (\<lambda>msk t. push_back_at t (getKey_mask msk newWord) index)
                                     masks currentFastSearch
           in Inr (d\<lparr>fastSearch := (fastSearch d)[length newWord := currentFastSearch]\<rparr>)
      else Inl OutOfBounds)"

text \<open>One round of the loop of \<^verbatim>\<open>loadDictionary\<close>, for a record of the file.\<close>

definition load_entry :: "str \<times> str \<Rightarrow> dictionary \<Rightarrow> fault + dictionary" where
  "load_entry r d =
     (let nextWord = dosToWinCode (fst r);
          explanation = dosToWinCode (snd r);
          clean = toupper (cleanString nextWord);
          d = d\<lparr>dirtyDict := emplace (dirtyDict d) clean nextWord\<rparr>;
          d = d\<lparr>explanationDict := emplace (explanationDict d) clean explanation\<rparr>
      in case addToFastSearch clean (of_nat (length (allWords d))) d of
           Inl e \<Rightarrow> Inl e
         | Inr d \<Rightarrow> Inr (d\<lparr>allWords := allWords d @ [clean]\<rparr>))"

fun load_loop :: "(str \<times> str) list \<Rightarrow> dictionary \<Rightarrow> fault + dictionary" where
  "load_loop [] d = Inr d"
| "load_loop (r # rs) d = (case load_entry r d of Inl e \<Rightarrow> Inl e | Inr d' \<Rightarrow> load_loop rs d')"

text \<open>
  \<^verbatim>\<open>loadDictionary\<close>: the file is \<open>None\<close> when it cannot be opened, else its records
  (word, explanation) in order.
\<close>

definition loadDictionary :: "(str \<times> str) list option \<Rightarrow> dictionary \<Rightarrow> fault + dictionary" where
  "loadDictionary file d =
     (let d = reset d
      in case file of None \<Rightarrow> Inr d | Some records \<Rightarrow> load_loop records d)"

section \<open>Lookups\<close>

definition getDirty :: "str \<Rightarrow> dictionary \<Rightarrow> fault + str" where
  "getDirty clean d = (case dirtyDict d clean of Some v \<Rightarrow> Inr v | None \<Rightarrow> Inl DanglingReference)"

definition getExplanation :: "str \<Rightarrow> dictionary \<Rightarrow> fault + str" where
  "getExplanation clean d =
     (case explanationDict d clean of Some v \<Rightarrow> Inr v | None \<Rightarrow> Inl DanglingReference)"

definition getFromIndex :: "dictionary \<Rightarrow> wid \<Rightarrow> fault + str" where
  "getFromIndex d index =
     (if unat index < length (allWords d) then Inr (allWords d ! unat index) else Inl OutOfBounds)"

section \<open>Shuffling\<close>

text \<open>
  \<^verbatim>\<open>std::random_shuffle\<close> permutes a vector in a way the program does not determine. The
  permutation applied to the bucket of length \<open>L\<close> and key \<open>k\<close> is \<open>rs L k\<close>, the one
  applied to the cached vector at address \<open>a\<close> is \<open>rc a\<close>; theorems about \<open>shuffle\<close>
  hold for all permutations.
\<close>

definition shuffle ::
  "(nat \<Rightarrow> key \<Rightarrow> bucket \<Rightarrow> bucket) \<Rightarrow> (addr \<Rightarrow> bucket \<Rightarrow> bucket) \<Rightarrow> dictionary \<Rightarrow> fault + dictionary"
where
  "shuffle rs rc d =
     (let d = d\<lparr>fastSearch :=
                 map (\<lambda>(len, t). (\<lambda>k. map_option (rs len k) (t k))) (enumerate 0 (fastSearch d))\<rparr>
      in if list_all (\<lambda>(p, a). heap d a \<noteq> None) (cacheSearchMap d)
         then Inr (d\<lparr>heap := fold (\<lambda>(p, a) h. h(a := map_option (rc a) (h a)))
                                 (cacheSearchMap d) (heap d)\<rparr>)
         else Inl DanglingPointer)"

section \<open>Queries\<close>

text \<open>
  The result of a query, \<^verbatim>\<open>Dictionary::Pattern\<close>, as \<^verbatim>\<open>findPossible\<close> constructs it: a
  count, the begin of the vector of identifiers, and the function that resolves an
  identifier to a word. That function is the closure
  \<^verbatim>\<open>[this](uint16_t index) -> const std::string& { return getFromIndex(index); }\<close>; it
  captures the object and not its words, so what it returns depends on the state the
  object has when the view is read, which is its first argument here.
\<close>

record pattern_view =
  view_size :: nat
  view_begin :: addr
  view_get :: "dictionary \<Rightarrow> wid \<Rightarrow> fault + str"

text \<open>
  \<^verbatim>\<open>isPossible\<close>: the loop returns at the first filled index where the strings differ.
  \<^verbatim>\<open>std::string::operator[]\<close> is defined up to and at the length of the string, where it
  gives the zero character.
\<close>

definition char_at :: "str \<Rightarrow> nat \<Rightarrow> fault + byte" where
  "char_at s i = (if i < length s then Inr (s ! i) else if i = length s then Inr 0 else Inl OutOfBounds)"

fun isPossible :: "str \<Rightarrow> str \<Rightarrow> nat list \<Rightarrow> fault + bool" where
  "isPossible pattern contender [] = Inr True"
| "isPossible pattern contender (i # filledIndices) =
     (case char_at pattern i of
        Inl e \<Rightarrow> Inl e
      | Inr a \<Rightarrow>
          (case char_at contender i of
             Inl e \<Rightarrow> Inl e
           | Inr b \<Rightarrow> if a \<noteq> b then Inr False else isPossible pattern contender filledIndices))"

text \<open>The loop of \<^verbatim>\<open>findPossible\<close> over the contenders of a long pattern.\<close>

fun possible_loop :: "dictionary \<Rightarrow> str \<Rightarrow> nat list \<Rightarrow> bucket \<Rightarrow> bucket \<Rightarrow> fault + bucket" where
  "possible_loop d pattern filledIndices [] possibleWordIndices = Inr possibleWordIndices"
| "possible_loop d pattern filledIndices (contender # narrowedWords) possibleWordIndices =
     (case getFromIndex d contender of
        Inl e \<Rightarrow> Inl e
      | Inr w \<Rightarrow>
          (case isPossible pattern w filledIndices of
             Inl e \<Rightarrow> Inl e
           | Inr b \<Rightarrow>
               possible_loop d pattern filledIndices narrowedWords
                 (if b then possibleWordIndices @ [contender] else possibleWordIndices)))"

definition cache_store :: "str \<Rightarrow> bucket \<Rightarrow> dictionary \<Rightarrow> pattern_view \<times> dictionary" where
  "cache_store pattern v d =
     (let (newCachePosition, d) = new_vector v d;
          d = d\<lparr>cacheSearchMap := AList.update pattern newCachePosition (cacheSearchMap d)\<rparr>
      in (\<lparr>view_size = length v, view_begin = newCachePosition, view_get = getFromIndex\<rparr>, d))"

definition findPossible :: "str \<Rightarrow> dictionary \<Rightarrow> fault + pattern_view \<times> dictionary" where
  "findPossible pattern d =
     (case map_of (cacheSearchMap d) pattern of
        Some newCachePosition \<Rightarrow>
          (case heap d newCachePosition of
             None \<Rightarrow> Inl DanglingPointer
           | Some v \<Rightarrow>
               Inr (\<lparr>view_size = length v, view_begin = newCachePosition,
                     view_get = getFromIndex\<rparr>, d))
      | None \<Rightarrow>
          let key = getKey pattern
          in if length pattern < LONGEST_WORD d
             then let t = subscript (fastSearch d ! length pattern) key;
                      narrowedWords = the (t key);
                      d = d\<lparr>fastSearch := (fastSearch d)[length pattern := t]\<rparr>
                  in if length pattern \<le> 6
                     then Inr (cache_store pattern narrowedWords d)
                     else let filledIndices =
                                filter (\<lambda>i. pattern ! i \<noteq> ANY_CHAR) [0..<length pattern]
                          in case possible_loop d pattern filledIndices narrowedWords [] of
                               Inl e \<Rightarrow> Inl e
                             | Inr possibleWordIndices \<Rightarrow>
                                 Inr (cache_store pattern possibleWordIndices d)
             else Inl OutOfBounds)"

text \<open>
  Reading a view in the state \<open>d\<close> of the object. \<open>view_ids\<close> is the range of
  identifiers the view spans, from its begin in the vector it points into, while that
  vector is alive. \<open>view_words\<close> is what a client that iterates over the view gets: every
  identifier of the range resolved, in order, by the function the view carries; the first
  identifier that does not resolve is a fault.
\<close>

definition view_ids :: "dictionary \<Rightarrow> pattern_view \<Rightarrow> fault + bucket" where
  "view_ids d v =
     (case heap d (view_begin v) of
        None \<Rightarrow> Inl DanglingPointer
      | Some b \<Rightarrow> if view_size v \<le> length b then Inr (take (view_size v) b) else Inl OutOfBounds)"

fun resolve_all :: "(wid \<Rightarrow> fault + str) \<Rightarrow> bucket \<Rightarrow> fault + str list" where
  "resolve_all get [] = Inr []"
| "resolve_all get (c # cs) =
     (case get c of
        Inl e \<Rightarrow> Inl e
      | Inr w \<Rightarrow> (case resolve_all get cs of Inl e \<Rightarrow> Inl e | Inr ws \<Rightarrow> Inr (w # ws)))"

definition view_words :: "dictionary \<Rightarrow> pattern_view \<Rightarrow> fault + str list" where
  "view_words d v =
     (case view_ids d v of Inl e \<Rightarrow> Inl e | Inr ids \<Rightarrow> resolve_all (view_get v d) ids)"

section \<open>Destruction\<close>

fun delete_all :: "(str \<times> addr) list \<Rightarrow> (addr \<rightharpoonup> bucket) \<Rightarrow> fault + (addr \<rightharpoonup> bucket)" where
  "delete_all [] h = Inr h"
| "delete_all (it # its) h =
     (case delete_vector (snd it) h of Inl e \<Rightarrow> Inl e | Inr h' \<Rightarrow> delete_all its h')"

definition destroy :: "dictionary \<Rightarrow> fault + (addr \<rightharpoonup> bucket)" where
  "destroy d = delete_all (cacheSearchMap d) (heap d)"

end
