(* ===== verification/Index_Load.thy ===== *)
theory Index_Load
  imports Word_Index
begin

text \<open>
  What \<^verbatim>\<open>loadDictionary\<close> builds. \<open>index_of ws len k\<close> is the reference content of the
  bucket of length \<open>len\<close> and key \<open>k\<close> for the word table \<open>ws\<close>: the identifier of every
  word of that length, in table order, once for each of the 64 masks that gives the
  word the key \<open>k\<close>. The theory shows that \<^verbatim>\<open>addToFastSearch\<close>, the loop body and the loop
  extend the buckets accordingly, when they fault, what the two dictionaries of surface
  forms and explanations hold (the first record of a key wins), and which words and
  how often the reference content lists.
\<close>

section \<open>Reference content of the index\<close>

definition bucket_at :: "dictionary \<Rightarrow> nat \<Rightarrow> key \<Rightarrow> bucket" where
  "bucket_at d len k = lookup_default [] (fastSearch d ! len) k"

definition multiplicity :: "str \<Rightarrow> key \<Rightarrow> nat" where
  "multiplicity w k = length (filter (\<lambda>m. getKey_mask m w = k) masks)"

definition entries :: "str \<Rightarrow> nat \<Rightarrow> nat \<Rightarrow> key \<Rightarrow> bucket" where
  "entries w i len k = (if length w = len then replicate (multiplicity w k) (of_nat i) else [])"

definition index_from :: "nat \<Rightarrow> str list \<Rightarrow> nat \<Rightarrow> key \<Rightarrow> bucket" where
  "index_from n ws len k = concat (map (\<lambda>(i, w). entries w i len k) (enumerate n ws))"

abbreviation index_of :: "str list \<Rightarrow> nat \<Rightarrow> key \<Rightarrow> bucket" where
  "index_of \<equiv> index_from 0"

lemma index_from_Nil [simp]: "index_from n [] len k = []"
  by (simp add: index_from_def)

lemma index_from_Cons: "index_from n (w # ws) len k = entries w n len k @ index_from (Suc n) ws len k"
  by (simp add: index_from_def)

lemma index_from_append:
  "index_from n (ws @ vs) len k = index_from n ws len k @ index_from (n + length ws) vs len k"
  by (simp add: index_from_def enumerate_append_eq)

lemma index_from_snoc:
  "index_from n (ws @ [w]) len k = index_from n ws len k @ entries w (n + length ws) len k"
  by (simp add: index_from_append index_from_Cons)

section \<open>Containers\<close>

lemma lookup_subscript [simp]: "lookup_default [] (subscript t k) k' = lookup_default [] t k'"
  by (auto simp: subscript_def lookup_default_def split: option.splits)

lemma subscript_same: "subscript t k k = Some (lookup_default [] t k)"
  by (auto simp: subscript_def lookup_default_def split: option.splits)

lemma lookup_push_back_at:
  "lookup_default [] (push_back_at t k i) k' =
     (if k' = k then lookup_default [] t k @ [i] else lookup_default [] t k')"
  by (simp add: push_back_at_def subscript_same)

lemma lookup_fold_push_back:
  "lookup_default [] (fold (\<lambda>m t. push_back_at t (f m) i) ms t) k =
     lookup_default [] t k @ replicate (length (filter (\<lambda>m. f m = k) ms)) i"
  by (induction ms arbitrary: t) (simp_all add: lookup_push_back_at replicate_app_Cons_same)

lemma emplace_apply: "emplace m k v k' = (if k' = k \<and> m k = None then Some v else m k')"
  by (auto simp: emplace_def split: option.splits)

section \<open>addToFastSearch\<close>

lemma LONGEST_WORD_simps [simp]:
  "LONGEST_WORD (d\<lparr>allWords := ws\<rparr>) = LONGEST_WORD d"
  "LONGEST_WORD (d\<lparr>dirtyDict := dd\<rparr>) = LONGEST_WORD d"
  "LONGEST_WORD (d\<lparr>explanationDict := ed\<rparr>) = LONGEST_WORD d"
  "LONGEST_WORD (d\<lparr>cacheSearchMap := c\<rparr>) = LONGEST_WORD d"
  "LONGEST_WORD (d\<lparr>heap := h\<rparr>) = LONGEST_WORD d"
  "LONGEST_WORD (d\<lparr>brk := b\<rparr>) = LONGEST_WORD d"
  "LONGEST_WORD (d\<lparr>fastSearch := fs\<rparr>) = length fs"
  by (simp_all add: LONGEST_WORD_def)

lemma bucket_at_simps [simp]:
  "bucket_at (d\<lparr>allWords := ws\<rparr>) = bucket_at d"
  "bucket_at (d\<lparr>dirtyDict := dd\<rparr>) = bucket_at d"
  "bucket_at (d\<lparr>explanationDict := ed\<rparr>) = bucket_at d"
  "bucket_at (d\<lparr>cacheSearchMap := c\<rparr>) = bucket_at d"
  "bucket_at (d\<lparr>heap := h\<rparr>) = bucket_at d"
  "bucket_at (d\<lparr>brk := b\<rparr>) = bucket_at d"
  by (simp_all add: bucket_at_def fun_eq_iff)

lemma addToFastSearch_Inr_iff:
  "(\<exists>d'. addToFastSearch w i d = Inr d') \<longleftrightarrow> length w < LONGEST_WORD d"
  by (simp add: addToFastSearch_def Let_def)

lemma addToFastSearch_fault:
  "addToFastSearch w i d = Inl e \<longleftrightarrow> e = OutOfBounds \<and> LONGEST_WORD d \<le> length w"
  by (auto simp: addToFastSearch_def Let_def)

lemma addToFastSearch_bucket:
  assumes "addToFastSearch w i d = Inr d'" and "len < LONGEST_WORD d"
  shows "bucket_at d' len k =
    bucket_at d len k @ (if len = length w then replicate (multiplicity w k) i else [])"
  using assms
  by (auto simp: addToFastSearch_def Let_def bucket_at_def LONGEST_WORD_def
      lookup_fold_push_back multiplicity_def split: if_splits)

lemma addToFastSearch_frame:
  assumes "addToFastSearch w i d = Inr d'"
  shows "allWords d' = allWords d" "dirtyDict d' = dirtyDict d"
    "explanationDict d' = explanationDict d" "cacheSearchMap d' = cacheSearchMap d"
    "heap d' = heap d" "brk d' = brk d" "LONGEST_WORD d' = LONGEST_WORD d"
  using assms by (auto simp: addToFastSearch_def Let_def LONGEST_WORD_def split: if_splits)


section \<open>One record\<close>

lemma load_entry_Inr_iff:
  "(\<exists>d'. load_entry r d = Inr d') \<longleftrightarrow> length (clean_key (fst r)) < LONGEST_WORD d"
  by (auto simp: load_entry_def Let_def clean_key_def addToFastSearch_def split: sum.splits)

lemma load_entry_fault:
  "load_entry r d = Inl e \<longleftrightarrow> e = OutOfBounds \<and> LONGEST_WORD d \<le> length (clean_key (fst r))"
  by (auto simp: load_entry_def Let_def clean_key_def addToFastSearch_def split: sum.splits)

lemma load_entry_effect:
  assumes "load_entry r d = Inr d'"
  shows "allWords d' = allWords d @ [clean_key (fst r)]"
    and "LONGEST_WORD d' = LONGEST_WORD d"
    and "dirtyDict d' = emplace (dirtyDict d) (clean_key (fst r)) (dosToWinCode (fst r))"
    and "explanationDict d' = emplace (explanationDict d) (clean_key (fst r)) (dosToWinCode (snd r))"
    and "cacheSearchMap d' = cacheSearchMap d" and "heap d' = heap d" and "brk d' = brk d"
    and "len < LONGEST_WORD d \<Longrightarrow> bucket_at d' len k =
           bucket_at d len k @ entries (clean_key (fst r)) (length (allWords d)) len k"
  using assms
  by (auto simp: load_entry_def Let_def clean_key_def entries_def
      dest: addToFastSearch_frame addToFastSearch_bucket split: sum.splits)

section \<open>The loop\<close>

lemma load_loop_Inr_iff:
  "(\<exists>d'. load_loop rs d = Inr d') \<longleftrightarrow> (\<forall>r\<in>set rs. length (clean_key (fst r)) < LONGEST_WORD d)"
proof (induction rs arbitrary: d)
  case Nil
  show ?case by simp
next
  case (Cons r rs)
  show ?case
  proof (cases "load_entry r d")
    case (Inl e)
    then have "LONGEST_WORD d \<le> length (clean_key (fst r))" by (simp add: load_entry_fault)
    with Inl show ?thesis by auto
  next
    case (Inr d1)
    with load_entry_Inr_iff [of r d] have "length (clean_key (fst r)) < LONGEST_WORD d" by auto
    with Inr Cons.IH [of d1] show ?thesis by (simp add: load_entry_effect(2))
  qed
qed

lemma load_loop_fault: "load_loop rs d = Inl e \<Longrightarrow> e = OutOfBounds"
  by (induction rs arbitrary: d) (auto simp: load_entry_fault split: sum.splits)

definition keyed :: "(str \<times> str \<Rightarrow> str) \<Rightarrow> (str \<times> str) list \<Rightarrow> (str \<times> str) list" where
  "keyed f rs = map (\<lambda>r. (clean_key (fst r), dosToWinCode (f r))) rs"

lemma load_loop_effect:
  assumes "load_loop rs d = Inr d'"
  shows "allWords d' = allWords d @ map (clean_key \<circ> fst) rs"
    and "LONGEST_WORD d' = LONGEST_WORD d"
    and "cacheSearchMap d' = cacheSearchMap d" and "heap d' = heap d" and "brk d' = brk d"
    and "len < LONGEST_WORD d \<Longrightarrow> bucket_at d' len k =
           bucket_at d len k @ index_from (length (allWords d)) (map (clean_key \<circ> fst) rs) len k"
  using assms
proof (induction rs arbitrary: d)
  case Nil
  { case 1 then show ?case by simp }
  { case 2 then show ?case by simp }
  { case 3 then show ?case by simp }
  { case 4 then show ?case by simp }
  { case 5 then show ?case by simp }
  { case 6 then show ?case by simp }
next
  case (Cons r rs)
  { case 1 then show ?case by (auto simp: load_entry_effect Cons.IH(1) split: sum.splits) }
  { case 2 then show ?case by (auto simp: load_entry_effect Cons.IH(2) split: sum.splits) }
  { case 3 then show ?case by (auto simp: load_entry_effect Cons.IH(3) split: sum.splits) }
  { case 4 then show ?case by (auto simp: load_entry_effect Cons.IH(4) split: sum.splits) }
  { case 5 then show ?case by (auto simp: load_entry_effect Cons.IH(5) split: sum.splits) }
  { case 6
    then obtain d1 where d1: "load_entry r d = Inr d1" and rest: "load_loop rs d1 = Inr d'"
      by (auto split: sum.splits)
    from 6 d1 have "len < LONGEST_WORD d1" by (simp add: load_entry_effect(2))
    from Cons.IH(6) [OF this rest] 6(1) show ?case
      by (simp add: load_entry_effect [OF d1] index_from_Cons) }
qed


lemma load_loop_dicts:
  assumes "load_loop rs d = Inr d'"
  shows "dirtyDict d' = map_of (keyed fst rs) ++ dirtyDict d"
    and "explanationDict d' = map_of (keyed snd rs) ++ explanationDict d"
  using assms
proof (induction rs arbitrary: d)
  case Nil
  { case 1 then show ?case by (simp add: keyed_def) }
  { case 2 then show ?case by (simp add: keyed_def) }
next
  case (Cons r rs)
  { case 1 then show ?case
      by (auto simp: load_entry_effect Cons.IH(1) keyed_def fun_eq_iff map_add_def emplace_apply
          split: sum.splits option.splits) }
  { case 2 then show ?case
      by (auto simp: load_entry_effect Cons.IH(2) keyed_def fun_eq_iff map_add_def emplace_apply
          split: sum.splits option.splits) }
qed

section \<open>Well-formed dictionaries\<close>

definition words_ok :: "dictionary \<Rightarrow> bool" where
  "words_ok d \<longleftrightarrow> list_all (\<lambda>w. list_all is_upper w \<and> length w < LONGEST_WORD d) (allWords d)"

definition capacity_ok :: "dictionary \<Rightarrow> bool" where
  "capacity_ok d \<longleftrightarrow> length (allWords d) \<le> 65536"

definition index_exact :: "dictionary \<Rightarrow> bool" where
  "index_exact d \<longleftrightarrow>
     (\<forall>len<LONGEST_WORD d. \<forall>k. bucket_at d len k = index_of (allWords d) len k)"

definition index_ok :: "dictionary \<Rightarrow> bool" where
  "index_ok d \<longleftrightarrow>
     (\<forall>len<LONGEST_WORD d. \<forall>k. mset (bucket_at d len k) = mset (index_of (allWords d) len k))"

lemma index_exact_ok: "index_exact d \<Longrightarrow> index_ok d"
  by (simp add: index_exact_def index_ok_def)

section \<open>reset and loadDictionary\<close>

lemma reset_simps [simp]:
  "allWords (reset d) = []" "dirtyDict (reset d) = Map.empty"
  "explanationDict (reset d) = Map.empty" "cacheSearchMap (reset d) = []"
  "heap (reset d) = heap d" "brk (reset d) = brk d" "LONGEST_WORD (reset d) = LONGEST_WORD d"
  by (simp_all add: reset_def LONGEST_WORD_def)

lemma bucket_at_reset [simp]: "len < LONGEST_WORD d \<Longrightarrow> bucket_at (reset d) len k = []"
  by (simp add: reset_def bucket_at_def LONGEST_WORD_def)

lemma loadDictionary_None [simp]: "loadDictionary None d = Inr (reset d)"
  by (simp add: loadDictionary_def)

lemma loadDictionary_Some: "loadDictionary (Some rs) d = load_loop rs (reset d)"
  by (simp add: loadDictionary_def)

lemma loadDictionary_Inr_iff:
  "(\<exists>d'. loadDictionary (Some rs) d = Inr d') \<longleftrightarrow>
     (\<forall>r\<in>set rs. length (clean_key (fst r)) < LONGEST_WORD d)"
  by (simp add: loadDictionary_Some load_loop_Inr_iff)

lemma loadDictionary_effect:
  assumes "loadDictionary (Some rs) d = Inr d'"
  shows "allWords d' = map (clean_key \<circ> fst) rs" and "LONGEST_WORD d' = LONGEST_WORD d"
    and "cacheSearchMap d' = []" and "heap d' = heap d" and "brk d' = brk d"
    and "dirtyDict d' = map_of (keyed fst rs)" and "explanationDict d' = map_of (keyed snd rs)"
    and "index_exact d'" and "words_ok d'"
proof -
  from assms have L: "load_loop rs (reset d) = Inr d'" by (simp add: loadDictionary_Some)
  note E = load_loop_effect [OF L] load_loop_dicts [OF L]
  show "allWords d' = map (clean_key \<circ> fst) rs" "LONGEST_WORD d' = LONGEST_WORD d"
    "cacheSearchMap d' = []" "heap d' = heap d" "brk d' = brk d"
    "dirtyDict d' = map_of (keyed fst rs)" "explanationDict d' = map_of (keyed snd rs)"
    using E by simp_all
  show "index_exact d'"
    unfolding index_exact_def using E(1,2,6) by simp
  from assms loadDictionary_Inr_iff [of rs d]
  have "\<forall>r\<in>set rs. length (clean_key (fst r)) < LONGEST_WORD d" by blast
  then show "words_ok d'"
    using E(1,2) by (simp add: words_ok_def list_all_iff clean_key_upper [unfolded list_all_iff])
qed


section \<open>What the reference index holds\<close>

lemma multiplicity_pos_iff: "0 < multiplicity w k \<longleftrightarrow> (\<exists>m\<in>set masks. getKey_mask m w = k)"
  by (auto simp: multiplicity_def filter_empty_conv)

lemma set_entries:
  "set (entries w i len k) =
     (if length w = len \<and> (\<exists>m\<in>set masks. getKey_mask m w = k) then {of_nat i} else {})"
  using multiplicity_pos_iff [of w k] by (auto simp: entries_def)

lemma of_nat_wid_eq_iff:
  assumes "i < 65536" and "j < 65536"
  shows "(of_nat i :: wid) = of_nat j \<longleftrightarrow> i = j"
proof
  assume eq: "(of_nat i :: wid) = of_nat j"
  then have "unat (of_nat i :: wid) = unat (of_nat j :: wid)" by simp
  with assms show "i = j" by (simp add: unat_of_nat)
qed simp

lemma count_entries:
  "count_list (entries w i len k) j =
     (if length w = len \<and> of_nat i = j then multiplicity w k else 0)"
  by (simp add: entries_def count_list_replicate)


definition listed :: "str list \<Rightarrow> nat \<Rightarrow> key \<Rightarrow> nat \<Rightarrow> bool" where
  "listed ws len k i \<longleftrightarrow>
     i < length ws \<and> length (ws ! i) = len \<and> (\<exists>m\<in>set masks. getKey_mask m (ws ! i) = k)"

lemma listed_snoc:
  "listed (ws @ [w]) len k i \<longleftrightarrow>
     listed ws len k i \<or>
     (i = length ws \<and> length w = len \<and> (\<exists>m\<in>set masks. getKey_mask m w = k))"
  by (cases "i < length ws") (auto simp: listed_def nth_append less_Suc_eq)

lemma mem_index_from:
  "x \<in> set (index_from n ws len k) \<longleftrightarrow> (\<exists>i. listed ws len k i \<and> x = of_nat (n + i))"
proof (induction ws rule: rev_induct)
  case Nil
  show ?case by (simp add: listed_def)
next
  case (snoc w ws)
  show ?case
    by (simp add: index_from_snoc snoc.IH set_entries listed_snoc) blast
qed


lemma count_index_of:
  assumes "length ws \<le> 65536" and "i < 65536"
  shows "count_list (index_of ws len k) (of_nat i) =
     (if i < length ws \<and> length (ws ! i) = len then multiplicity (ws ! i) k else 0)"
  using assms(1)
proof (induction ws rule: rev_induct)
  case Nil
  show ?case by simp
next
  case (snoc w ws)
  then have len: "length ws < 65536" by simp
  with assms(2) have eq: "(of_nat (length ws) :: wid) = of_nat i \<longleftrightarrow> i = length ws"
    by (auto simp: of_nat_wid_eq_iff)
  from snoc have IH: "count_list (index_of ws len k) (of_nat i) =
     (if i < length ws \<and> length (ws ! i) = len then multiplicity (ws ! i) k else 0)"
    by simp
  consider "i < length ws" | "i = length ws" | "length ws < i" by linarith
  then show ?case
  proof cases
    case 1
    with IH eq show ?thesis by (simp add: index_from_snoc count_entries nth_append)
  next
    case 2
    with IH eq show ?thesis by (simp add: index_from_snoc count_entries)
  next
    case 3
    with IH eq show ?thesis by (simp add: index_from_snoc count_entries)
  qed
qed


section \<open>The bucket of a pattern\<close>

lemma listed_pattern:
  "listed ws (length p) (getKey p) i \<longleftrightarrow>
     i < length ws \<and> length (ws ! i) = length p \<and> agrees6 p (ws ! i)"
proof (cases "i < length ws \<and> length (ws ! i) = length p")
  case True
  then have "(\<exists>m\<in>set masks. getKey_mask m (ws ! i) = getKey p) \<longleftrightarrow> agrees6 p (ws ! i)"
    using ex_mask_iff [of p "ws ! i"] by (auto simp: eq_commute)
  with True show ?thesis by (simp add: listed_def)
next
  case False
  then show ?thesis by (auto simp: listed_def)
qed

lemma multiplicity_pattern:
  assumes "length p = length w" and "0 \<notin> set (take 6 w)"
  shows "multiplicity w (getKey p) = (if agrees6 p w then 2 ^ (6 - min (length w) 6) else 0)"
  using mask_multiplicity [OF assms(2), of "getKey p"] ex_mask_iff [OF assms(1)]
  by (simp add: multiplicity_def eq_commute)

lemma words_ok_nth:
  assumes "words_ok d" and "i < length (allWords d)"
  shows "list_all is_upper (allWords d ! i)" and "length (allWords d ! i) < LONGEST_WORD d"
    and "0 \<notin> set (take 6 (allWords d ! i))"
proof -
  from assms show u: "list_all is_upper (allWords d ! i)"
    and "length (allWords d ! i) < LONGEST_WORD d"
    by (simp_all add: words_ok_def list_all_length)
  from u have "0 \<notin> set (allWords d ! i)"
    by (auto simp: list_all_iff dest: is_upper_nonzero)
  then show "0 \<notin> set (take 6 (allWords d ! i))"
    by (auto dest: in_set_takeD)
qed


section \<open>A small dictionary\<close>

text \<open>
  Three records, the first in the DOS code page, the third in lower case: the first and
  the third have the same canonical key, which is therefore stored twice.
\<close>

definition ex_records :: "(str \<times> str) list" where
  "ex_records = [([170, 174, 178], [1]), ([202, 206, 196], [2]), ([234, 238, 242], [3])]"

definition ex_dict :: dictionary where
  "ex_dict = (case loadDictionary (Some ex_records) (new_dictionary 8) of Inr d \<Rightarrow> d)"

lemma ex_words:
  "map (clean_key \<circ> fst) ex_records = [[202, 206, 210], [202, 206, 196], [202, 206, 210]]"
  by (simp add: ex_records_def clean_key_Cons letter_of_def)

lemma ex_load: "loadDictionary (Some ex_records) (new_dictionary 8) = Inr ex_dict"
proof -
  have "\<forall>r\<in>set ex_records. length (clean_key (fst r)) < LONGEST_WORD (new_dictionary 8)"
    using ex_words by (simp add: ex_records_def new_dictionary_def LONGEST_WORD_def)
  then obtain d' where "loadDictionary (Some ex_records) (new_dictionary 8) = Inr d'"
    using loadDictionary_Inr_iff by blast
  then show ?thesis by (simp add: ex_dict_def)
qed

lemma map_of_keyed:
  "map_of (keyed f rs) k = map_option (\<lambda>r. dosToWinCode (f r)) (find (\<lambda>r. clean_key (fst r) = k) rs)"
  by (induction rs) (auto simp: keyed_def)


section \<open>What loading guarantees\<close>

text \<open>
  C3 (functional). A load that returns stores the canonical keys of the records, in file
  order and with duplicates, as the word table, keeps the number of tables, leaves in
  every bucket exactly the reference index of the word table (each word's identifier
  once per mask that selects the bucket's key), empties the cache and does not touch
  the heap.
\<close>

theorem load_builds_index:
  assumes "loadDictionary (Some rs) d = Inr d'"
  shows "allWords d' = map (clean_key \<circ> fst) rs \<and> LONGEST_WORD d' = LONGEST_WORD d
    \<and> (\<forall>len<LONGEST_WORD d'. \<forall>k. bucket_at d' len k = index_of (allWords d') len k)
    \<and> cacheSearchMap d' = [] \<and> heap d' = heap d"
  using loadDictionary_effect [OF assms] by (simp add: index_exact_def)

theorem load_builds_index_witness:
  "loadDictionary (Some ex_records) (new_dictionary 8) = Inr ex_dict
   \<and> allWords ex_dict = [[202, 206, 210], [202, 206, 196], [202, 206, 210]]
   \<and> bucket_at ex_dict 3 (getKey [202, 0, 210])
       = index_of [[202, 206, 210], [202, 206, 196], [202, 206, 210]] 3 (getKey [202, 0, 210])"
  using load_builds_index [OF ex_load] ex_load ex_words
  by (simp add: new_dictionary_def LONGEST_WORD_def)

text \<open>
  C14 (error). Loading faults exactly when some record's canonical key is at least
  \<^verbatim>\<open>LONGEST_WORD\<close> bytes long, and the fault is the out-of-bounds access
  \<^verbatim>\<open>_fastSearch[newWord.size()]\<close> of \<^verbatim>\<open>addToFastSearch\<close>.
\<close>

theorem load_faults_iff:
  "loadDictionary (Some rs) d = Inl e \<longleftrightarrow>
     e = OutOfBounds \<and> (\<exists>r\<in>set rs. LONGEST_WORD d \<le> length (clean_key (fst r)))"
proof (cases "loadDictionary (Some rs) d")
  case (Inl e')
  with loadDictionary_Inr_iff [of rs d] load_loop_fault [of rs "reset d" e'] show ?thesis
    by (auto simp: loadDictionary_Some not_less)
next
  case (Inr d')
  with loadDictionary_Inr_iff [of rs d] show ?thesis by (auto simp: not_less)
qed

theorem load_faults_iff_witness:
  "loadDictionary (Some [([202, 206, 210], [])]) (new_dictionary 3) = Inl OutOfBounds"
  using load_faults_iff [of "[([202, 206, 210], [])]" "new_dictionary 3" OutOfBounds]
  by (simp add: clean_key_Cons new_dictionary_def LONGEST_WORD_def)

text \<open>
  C16 (functional). After a load, \<^verbatim>\<open>getDirty\<close> and \<^verbatim>\<open>getExplanation\<close> of a key return the
  code-page-converted fields of the first record with that canonical key (\<^verbatim>\<open>emplace\<close>
  keeps the first), and for a key of no record they return the reference to a destroyed
  temporary.
\<close>

theorem first_record_wins:
  assumes "loadDictionary (Some rs) d = Inr d'"
  shows "getDirty k d' =
           (case find (\<lambda>r. clean_key (fst r) = k) rs of
              None \<Rightarrow> Inl DanglingReference | Some r \<Rightarrow> Inr (dosToWinCode (fst r)))
       \<and> getExplanation k d' =
           (case find (\<lambda>r. clean_key (fst r) = k) rs of
              None \<Rightarrow> Inl DanglingReference | Some r \<Rightarrow> Inr (dosToWinCode (snd r)))"
  using loadDictionary_effect(6,7) [OF assms]
  by (simp add: getDirty_def getExplanation_def map_of_keyed split: option.splits)

theorem first_record_wins_witness:
  "getDirty [202, 206, 210] ex_dict = Inr [234, 238, 242]
   \<and> getExplanation [202, 206, 210] ex_dict = Inr [1]
   \<and> getDirty [202] ex_dict = Inl DanglingReference"
  using first_record_wins [OF ex_load, of "[202, 206, 210]"] first_record_wins [OF ex_load, of "[202]"]
  by (simp add: ex_records_def clean_key_Cons letter_of_def dosToWinCode_def dosToWin_char_def
      CYRILLIC_A_def)

text \<open>
  C35 (bounds). The identifier of a word is its position truncated to 16 bits: the word
  loaded when the table already holds 65536 words is indexed under identifier 0, which
  \<^verbatim>\<open>getFromIndex\<close> resolves to the first word of the table.
\<close>

theorem identifier_wraps:
  assumes "load_entry r d = Inr d'" and "length (allWords d) = 65536"
    and "len < LONGEST_WORD d"
  shows "bucket_at d' len k =
           bucket_at d len k @
           (if length (clean_key (fst r)) = len
            then replicate (multiplicity (clean_key (fst r)) k) 0 else [])
       \<and> getFromIndex d' 0 = Inr (allWords d ! 0)"
  using assms load_entry_effect(1,8) [OF assms(1)]
  by (simp add: entries_def getFromIndex_def nth_append)

theorem identifier_wraps_witness:
  "\<exists>d'. load_entry ([202, 206], []) (new_dictionary 4\<lparr>allWords := replicate 65536 [192]\<rparr>) = Inr d'
     \<and> getFromIndex d' 0 = Inr [192]"
proof -
  let ?d = "new_dictionary 4\<lparr>allWords := replicate 65536 [192]\<rparr>"
  have "length (clean_key (fst ([202, 206], []))) < LONGEST_WORD ?d"
    by (simp add: clean_key_Cons new_dictionary_def LONGEST_WORD_def)
  then obtain d' where d': "load_entry ([202, 206], []) ?d = Inr d'"
    using load_entry_Inr_iff by blast
  from identifier_wraps [OF d', of 2] have "getFromIndex d' 0 = Inr [192]"
    by (simp add: new_dictionary_def LONGEST_WORD_def)
  with d' show ?thesis by blast
qed

end
