(* ===== verification/Index_Query.thy ===== *)
theory Index_Query
  imports Index_Load
begin

text \<open>
  What \<^verbatim>\<open>findPossible\<close> returns and what it does to the dictionary. The invariant
  \<open>dict_inv\<close> says that the words are canonical and shorter than \<^verbatim>\<open>LONGEST_WORD\<close>, that
  every identifier fits in 16 bits, that every bucket is a permutation of the reference
  index, that every cached vector is alive and is a permutation of the reference answer
  for its pattern, and that no address at or above \<open>brk\<close> is allocated. Under it a
  query does not fault, keeps the invariant, and returns a view of exactly the words of
  the pattern's length that the pattern admits.
\<close>

section \<open>isPossible\<close>

lemma char_at_in_range [simp]: "i < length s \<Longrightarrow> char_at s i = Inr (s ! i)"
  by (simp add: char_at_def)

lemma isPossible_in_range:
  assumes "\<forall>i\<in>set fi. i < length p \<and> i < length w"
  shows "isPossible p w fi = Inr (list_all (\<lambda>i. p ! i = w ! i) fi)"
  using assms by (induction fi) auto

definition filled :: "str \<Rightarrow> nat list" where
  "filled pattern = filter (\<lambda>i. pattern ! i \<noteq> ANY_CHAR) [0..<length pattern]"

lemma isPossible_filled:
  assumes "length w = length p"
  shows "isPossible p w (filled p) = Inr (matches ANY_CHAR p w)"
proof -
  have "isPossible p w (filled p) = Inr (list_all (\<lambda>i. p ! i = w ! i) (filled p))"
    using assms by (intro isPossible_in_range) (simp add: filled_def)
  also have "list_all (\<lambda>i. p ! i = w ! i) (filled p) \<longleftrightarrow> matches ANY_CHAR p w"
    using assms by (auto simp: filled_def list_all_iff matches_iff_nth)
  finally show ?thesis .
qed

text \<open>A contender is readable when its identifier is in the table and its word has the length of the pattern.\<close>

definition readable :: "dictionary \<Rightarrow> str \<Rightarrow> wid \<Rightarrow> bool" where
  "readable d p c \<longleftrightarrow> unat c < length (allWords d) \<and> length (allWords d ! unat c) = length p"

lemma possible_loop_readable:
  assumes "\<forall>c\<in>set ns. readable d p c"
  shows "possible_loop d p (filled p) ns acc =
           Inr (acc @ filter (\<lambda>c. matches ANY_CHAR p (allWords d ! unat c)) ns)"
  using assms
  by (induction ns arbitrary: acc) (simp_all add: readable_def getFromIndex_def isPossible_filled)

text \<open>The loop faults at the first contender that is not in the table.\<close>

lemma possible_loop_fault:
  assumes "c \<in> set ns" and "length (allWords d) \<le> unat c"
    and "\<forall>c'\<in>set (takeWhile (\<lambda>x. x \<noteq> c) ns). readable d p c'"
  shows "possible_loop d p (filled p) ns acc = Inl OutOfBounds"
  using assms
proof (induction ns arbitrary: acc)
  case Nil
  then show ?case by simp
next
  case (Cons x ns)
  show ?case
  proof (cases "x = c")
    case True
    with Cons.prems show ?thesis by (simp add: getFromIndex_def)
  next
    case False
    with Cons.prems have "readable d p x" by simp
    with False Cons show ?thesis
      by (simp add: readable_def getFromIndex_def isPossible_filled)
  qed
qed


section \<open>The reference answer\<close>

definition admits :: "str \<Rightarrow> str \<Rightarrow> bool" where
  "admits p w \<longleftrightarrow> agrees6 p w \<and> (length p \<le> 6 \<or> matches ANY_CHAR p w)"

definition answer :: "dictionary \<Rightarrow> str \<Rightarrow> bucket" where
  "answer d p =
     filter (\<lambda>c. length p \<le> 6 \<or> matches ANY_CHAR p (allWords d ! unat c))
       (index_of (allWords d) (length p) (getKey p))"

definition matching :: "dictionary \<Rightarrow> str \<Rightarrow> nat set" where
  "matching d p =
     {i. i < length (allWords d) \<and> length (allWords d ! i) = length p \<and> admits p (allWords d ! i)}"

definition cache_ok :: "dictionary \<Rightarrow> bool" where
  "cache_ok d \<longleftrightarrow>
     distinct (map fst (cacheSearchMap d)) \<and> distinct (map snd (cacheSearchMap d)) \<and>
     (\<forall>(p, a)\<in>set (cacheSearchMap d).
        length p < LONGEST_WORD d \<and> (\<exists>v. heap d a = Some v \<and> mset v = mset (answer d p)))"

definition heap_ok :: "dictionary \<Rightarrow> bool" where
  "heap_ok d \<longleftrightarrow> (\<forall>a. heap d a \<noteq> None \<longrightarrow> a < brk d)"

definition dict_inv :: "dictionary \<Rightarrow> bool" where
  "dict_inv d \<longleftrightarrow> words_ok d \<and> capacity_ok d \<and> index_ok d \<and> cache_ok d \<and> heap_ok d"

lemma dict_invD:
  assumes "dict_inv d"
  shows "words_ok d" "capacity_ok d" "index_ok d" "cache_ok d" "heap_ok d"
  using assms by (simp_all add: dict_inv_def)

lemma index_member_readable:
  assumes "words_ok d" and "capacity_ok d" and "c \<in> set (index_of (allWords d) len k)"
  obtains i where "c = of_nat i" "unat c = i" "listed (allWords d) len k i"
proof -
  from assms(3) obtain i where i: "listed (allWords d) len k i" "c = of_nat i"
    by (auto simp: mem_index_from)
  with assms(2) have "i < 65536" by (simp add: listed_def capacity_ok_def)
  with i that show thesis by (simp add: unat_of_nat_wid)
qed

lemma unat_set_answer:
  assumes "words_ok d" and "capacity_ok d"
  shows "unat ` set (answer d p) = matching d p"
proof (intro set_eqI iffI)
  fix i assume "i \<in> unat ` set (answer d p)"
  then obtain c where c: "c \<in> set (index_of (allWords d) (length p) (getKey p))"
    "length p \<le> 6 \<or> matches ANY_CHAR p (allWords d ! unat c)" "i = unat c"
    by (auto simp: answer_def)
  from assms c(1) obtain j where "unat c = j" "listed (allWords d) (length p) (getKey p) j"
    by (rule index_member_readable)
  with c show "i \<in> matching d p"
    by (simp add: matching_def admits_def listed_pattern)
next
  fix i assume "i \<in> matching d p"
  then have i: "listed (allWords d) (length p) (getKey p) i"
    "length p \<le> 6 \<or> matches ANY_CHAR p (allWords d ! i)"
    by (simp_all add: matching_def admits_def listed_pattern)
  with assms(2) have u: "unat (of_nat i :: wid) = i"
    by (simp add: unat_of_nat_wid listed_def capacity_ok_def)
  from i(1) have "of_nat i \<in> set (index_of (allWords d) (length p) (getKey p))"
    by (auto simp: mem_index_from)
  with i(2) u have "of_nat i \<in> set (answer d p)" by (simp add: answer_def)
  with u show "i \<in> unat ` set (answer d p)" by (metis image_eqI)
qed


section \<open>The effect of a query\<close>

definition touched :: "dictionary \<Rightarrow> str \<Rightarrow> dictionary" where
  "touched d p =
     d\<lparr>fastSearch := (fastSearch d)[length p := subscript (fastSearch d ! length p) (getKey p)]\<rparr>"

definition impl_answer :: "dictionary \<Rightarrow> str \<Rightarrow> bucket" where
  "impl_answer d p =
     filter (\<lambda>c. length p \<le> 6 \<or> matches ANY_CHAR p (allWords d ! unat c))
       (bucket_at d (length p) (getKey p))"

lemma update_absent: "map_of al k = None \<Longrightarrow> AList.update k v al = al @ [(k, v)]"
  by (induction al) (auto split: if_splits)

lemma touched_simps [simp]:
  "allWords (touched d p) = allWords d" "dirtyDict (touched d p) = dirtyDict d"
  "explanationDict (touched d p) = explanationDict d"
  "cacheSearchMap (touched d p) = cacheSearchMap d" "heap (touched d p) = heap d"
  "brk (touched d p) = brk d" "LONGEST_WORD (touched d p) = LONGEST_WORD d"
  by (simp_all add: touched_def LONGEST_WORD_def)

lemma bucket_at_touched [simp]:
  "len < LONGEST_WORD d \<Longrightarrow> bucket_at (touched d p) len k = bucket_at d len k"
  by (cases "len = length p") (simp_all add: touched_def bucket_at_def LONGEST_WORD_def)

lemma cache_store_eq:
  "cache_store p v d =
     (\<lparr>view_size = length v, view_begin = brk d, view_get = getFromIndex\<rparr>,
      d\<lparr>heap := (heap d)(brk d \<mapsto> v), brk := Suc (brk d),
        cacheSearchMap := AList.update p (brk d) (cacheSearchMap d)\<rparr>)"
  by (simp add: cache_store_def new_vector_def)

lemma findPossible_hit:
  assumes "map_of (cacheSearchMap d) p = Some a" and "heap d a = Some v"
  shows "findPossible p d = Inr (\<lparr>view_size = length v, view_begin = a, view_get = getFromIndex\<rparr>, d)"
  using assms by (simp add: findPossible_def)

lemma findPossible_dangling:
  assumes "map_of (cacheSearchMap d) p = Some a" and "heap d a = None"
  shows "findPossible p d = Inl DanglingPointer"
  using assms by (simp add: findPossible_def)

lemma findPossible_out_of_bounds:
  assumes "map_of (cacheSearchMap d) p = None" and "LONGEST_WORD d \<le> length p"
  shows "findPossible p d = Inl OutOfBounds"
  using assms by (simp add: findPossible_def Let_def)

lemma findPossible_miss:
  assumes "map_of (cacheSearchMap d) p = None" and "length p < LONGEST_WORD d"
    and "\<forall>c\<in>set (bucket_at d (length p) (getKey p)). readable d p c"
  shows "findPossible p d = Inr (cache_store p (impl_answer d p) (touched d p))"
proof -
  have t: "the (subscript (fastSearch d ! length p) (getKey p) (getKey p))
         = bucket_at d (length p) (getKey p)"
    by (simp add: subscript_same bucket_at_def)
  have r: "\<forall>c\<in>set (bucket_at d (length p) (getKey p)). readable (touched d p) p c"
    using assms(3) by (simp add: readable_def)
  show ?thesis
  proof (cases "length p \<le> 6")
    case True
    with assms(1,2) show ?thesis
      by (simp add: findPossible_def Let_def t impl_answer_def touched_def)
  next
    case False
    with assms(1,2) possible_loop_readable [OF r, of "[]"] show ?thesis
      by (simp add: findPossible_def Let_def t impl_answer_def filled_def readable_def
          flip: touched_def)
  qed
qed

lemma bucket_readable:
  assumes "words_ok d" and "capacity_ok d" and "index_ok d" and "len < LONGEST_WORD d"
    and "c \<in> set (bucket_at d len k)"
  shows "unat c < length (allWords d)" and "length (allWords d ! unat c) = len"
proof -
  from assms(3,4) have "set (bucket_at d len k) = set (index_of (allWords d) len k)"
    by (auto simp: index_ok_def dest: mset_eq_setD)
  with assms(5) have "c \<in> set (index_of (allWords d) len k)" by simp
  with assms(1,2) obtain i where "unat c = i" "listed (allWords d) len k i"
    by (rule index_member_readable)
  then show "unat c < length (allWords d)" and "length (allWords d ! unat c) = len"
    by (simp_all add: listed_def)
qed

lemma mset_impl_answer:
  assumes "index_ok d" and "length p < LONGEST_WORD d"
  shows "mset (impl_answer d p) = mset (answer d p)"
  using assms by (simp add: impl_answer_def answer_def index_ok_def)


section \<open>Queries keep the invariant\<close>

lemma answer_cong: "allWords d' = allWords d \<Longrightarrow> answer d' p = answer d p"
  by (simp add: answer_def)

lemma words_ok_cong:
  "allWords d' = allWords d \<Longrightarrow> LONGEST_WORD d' = LONGEST_WORD d \<Longrightarrow> words_ok d' = words_ok d"
  by (simp add: words_ok_def)

lemma capacity_ok_cong: "allWords d' = allWords d \<Longrightarrow> capacity_ok d' = capacity_ok d"
  by (simp add: capacity_ok_def)

lemma index_ok_cong:
  assumes "allWords d' = allWords d" and "LONGEST_WORD d' = LONGEST_WORD d"
    and "\<And>len k. len < LONGEST_WORD d \<Longrightarrow> mset (bucket_at d' len k) = mset (bucket_at d len k)"
  shows "index_ok d' = index_ok d"
  using assms by (simp add: index_ok_def)

lemma cache_addr_below_brk:
  assumes "cache_ok d" and "heap_ok d" and "(q, a) \<in> set (cacheSearchMap d)"
  shows "a < brk d"
  using assms by (fastforce simp: cache_ok_def heap_ok_def)



lemma dict_inv_touched: "dict_inv d \<Longrightarrow> dict_inv (touched d p)"
proof -
  assume inv: "dict_inv d"
  have "words_ok (touched d p) = words_ok d" by (rule words_ok_cong) simp_all
  moreover have "capacity_ok (touched d p) = capacity_ok d" by (rule capacity_ok_cong) simp
  moreover have "index_ok (touched d p) = index_ok d" by (rule index_ok_cong) simp_all
  moreover have "cache_ok (touched d p) = cache_ok d"
    by (simp add: cache_ok_def answer_cong [of "touched d p" d])
  moreover have "heap_ok (touched d p) = heap_ok d" by (simp add: heap_ok_def)
  ultimately show ?thesis using inv by (simp add: dict_inv_def)
qed


lemma cache_store_frame:
  assumes "map_of (cacheSearchMap d) p = None"
  shows "allWords (snd (cache_store p v d)) = allWords d"
    and "LONGEST_WORD (snd (cache_store p v d)) = LONGEST_WORD d"
    and "bucket_at (snd (cache_store p v d)) = bucket_at d"
    and "cacheSearchMap (snd (cache_store p v d)) = cacheSearchMap d @ [(p, brk d)]"
    and "heap (snd (cache_store p v d)) = (heap d)(brk d \<mapsto> v)"
    and "brk (snd (cache_store p v d)) = Suc (brk d)"
  using assms by (simp_all add: cache_store_eq update_absent)

lemma cache_ok_cache_store:
  assumes co: "cache_ok d" and ho: "heap_ok d" and miss: "map_of (cacheSearchMap d) p = None"
    and len: "length p < LONGEST_WORD d" and v: "mset v = mset (answer d p)"
  shows "cache_ok (snd (cache_store p v d))"
proof -
  note F = cache_store_frame [OF miss, of v]
  have fresh: "a \<noteq> brk d" if "(q, a) \<in> set (cacheSearchMap d)" for q a
    using cache_addr_below_brk [OF co ho that] by simp
  have absent: "q \<noteq> p" if "(q, a) \<in> set (cacheSearchMap d)" for q a
    using miss that by (force simp: map_of_eq_None_iff)
  show ?thesis
    unfolding cache_ok_def F answer_cong [OF F(1)]
  proof (intro conjI ballI)
    show "distinct (map fst (cacheSearchMap d @ [(p, brk d)]))"
      using co by (auto simp: cache_ok_def dest: absent)
    show "distinct (map snd (cacheSearchMap d @ [(p, brk d)]))"
      using co by (auto simp: cache_ok_def dest: fresh)
    fix x assume x: "x \<in> set (cacheSearchMap d @ [(p, brk d)])"
    obtain q a where [simp]: "x = (q, a)" by (cases x)
    show "case x of (p, a) \<Rightarrow> length p < LONGEST_WORD d \<and>
            (\<exists>u. ((heap d)(brk d \<mapsto> v)) a = Some u \<and> mset u = mset (answer d p))"
    proof (cases "(q, a) \<in> set (cacheSearchMap d)")
      case True
      with co have "length q < LONGEST_WORD d"
        "\<exists>u. heap d a = Some u \<and> mset u = mset (answer d q)"
        by (auto simp: cache_ok_def)
      with fresh [OF True] show ?thesis by simp
    next
      case False
      with x len v show ?thesis by simp
    qed
  qed
qed

lemma dict_inv_cache_store:
  assumes inv: "dict_inv d" and miss: "map_of (cacheSearchMap d) p = None"
    and len: "length p < LONGEST_WORD d" and v: "mset v = mset (answer d p)"
  shows "dict_inv (snd (cache_store p v d))"
proof -
  note F = cache_store_frame [OF miss, of v]
  from inv have "cache_ok (snd (cache_store p v d))"
    by (intro cache_ok_cache_store miss len v) (simp_all add: dict_inv_def)
  moreover have "heap_ok (snd (cache_store p v d))"
    using inv by (auto simp: heap_ok_def dict_inv_def F less_Suc_eq)
  moreover have "words_ok (snd (cache_store p v d)) = words_ok d"
    using F by (intro words_ok_cong)
  moreover have "capacity_ok (snd (cache_store p v d)) = capacity_ok d"
    using F by (intro capacity_ok_cong)
  moreover have "index_ok (snd (cache_store p v d)) = index_ok d"
    using F by (intro index_ok_cong) simp_all
  ultimately show ?thesis
    using inv by (simp add: dict_inv_def)
qed

section \<open>Reading a view\<close>

definition query :: "str \<Rightarrow> dictionary \<Rightarrow> fault + bucket \<times> dictionary" where
  "query p d =
     (case findPossible p d of
        Inl e \<Rightarrow> Inl e
      | Inr (v, d') \<Rightarrow> (case view_ids d' v of Inl e \<Rightarrow> Inl e | Inr ids \<Rightarrow> Inr (ids, d')))"

lemma view_ids_whole:
  "heap d a = Some v \<Longrightarrow> view_ids d \<lparr>view_size = length v, view_begin = a, view_get = getFromIndex\<rparr> = Inr v"
  by (simp add: view_ids_def)

lemma query_hit:
  assumes "map_of (cacheSearchMap d) p = Some a" and "heap d a = Some v"
  shows "query p d = Inr (v, d)"
  using assms by (simp add: query_def findPossible_hit view_ids_whole)

lemma query_miss:
  assumes "map_of (cacheSearchMap d) p = None" and "length p < LONGEST_WORD d"
    and "\<forall>c\<in>set (bucket_at d (length p) (getKey p)). readable d p c"
  shows "query p d = Inr (impl_answer d p, snd (cache_store p (impl_answer d p) (touched d p)))"
  using assms by (simp add: query_def findPossible_miss cache_store_eq view_ids_def)

lemma query_result:
  assumes inv: "dict_inv d" and len: "length p < LONGEST_WORD d"
  obtains ids d' where "query p d = Inr (ids, d')" "dict_inv d'" "allWords d' = allWords d"
    "LONGEST_WORD d' = LONGEST_WORD d" "mset ids = mset (answer d p)"
proof (cases "map_of (cacheSearchMap d) p")
  case (Some a)
  then have "(p, a) \<in> set (cacheSearchMap d)" by (rule map_of_SomeD)
  with inv obtain v where v: "heap d a = Some v" "mset v = mset (answer d p)"
    by (auto simp: dict_inv_def cache_ok_def)
  with Some inv that [of v d] show thesis by (simp add: query_hit)
next
  case None
  let ?v = "impl_answer d p"
  let ?d = "snd (cache_store p ?v (touched d p))"
  from inv len have r: "\<forall>c\<in>set (bucket_at d (length p) (getKey p)). readable d p c"
    by (auto simp: readable_def dict_inv_def dest: bucket_readable)
  from inv len have m: "mset ?v = mset (answer d p)"
    by (simp add: mset_impl_answer dict_inv_def)
  have "dict_inv ?d"
    using inv None len m
    by (intro dict_inv_cache_store dict_inv_touched) (simp_all add: answer_cong [of "touched d p" d])
  moreover have "allWords ?d = allWords d" "LONGEST_WORD ?d = LONGEST_WORD d"
    by (simp_all add: cache_store_eq)
  ultimately show thesis
    using that [of ?v ?d] m query_miss [OF None len r] by simp
qed

lemma query_cached:
  assumes "query p d = Inr (ids, d')"
  shows "\<exists>a. map_of (cacheSearchMap d') p = Some a \<and> heap d' a = Some ids"
proof (cases "map_of (cacheSearchMap d) p")
  case (Some a)
  with assms show ?thesis
    by (auto simp: query_def findPossible_def view_ids_def split: option.splits if_splits)
next
  case None
  with assms have "map_of (cacheSearchMap d') p = Some (brk (touched d p))"
    "heap d' (brk (touched d p)) = Some ids"
    by (auto simp: query_def findPossible_def Let_def cache_store_eq view_ids_def update_conv'
        split: if_splits sum.splits)
  then show ?thesis by simp
qed


lemma cached_short:
  "dict_inv d \<Longrightarrow> map_of (cacheSearchMap d) p = Some a \<Longrightarrow> length p < LONGEST_WORD d"
  by (auto simp: dict_inv_def cache_ok_def dest!: map_of_SomeD)


section \<open>Which words a query returns\<close>

lemma admits_iff_matches:
  assumes "length p = length w"
  shows "admits p w \<longleftrightarrow> matches 0 p w"
proof (cases "length p \<le> 6")
  case True
  with assms show ?thesis by (simp add: admits_def agrees6_def)
next
  case False
  then show ?thesis by (auto simp: admits_def ANY_CHAR_def dest: matches_agrees6)
qed

lemma matching_eq: "matching d p = {i. i < length (allWords d) \<and> matches 0 p (allWords d ! i)}"
  by (auto simp: matching_def admits_iff_matches matches_iff_nth)

lemma count_list_filter: "count_list (filter P xs) x = (if P x then count_list xs x else 0)"
  by (induction xs) auto

lemma count_answer:
  assumes "words_ok d" and "capacity_ok d"
  shows "count_list (answer d p) c =
     (if unat c \<in> matching d p then 2 ^ (6 - min (length p) 6) else 0)"
proof -
  let ?ws = "allWords d"
  have c: "c = of_nat (unat c)" "unat c < 65536"
    using unsigned_less [of c, where 'a = nat] by simp_all
  have "count_list (index_of ?ws (length p) (getKey p)) c =
      (if unat c < length ?ws \<and> length (?ws ! unat c) = length p
       then multiplicity (?ws ! unat c) (getKey p) else 0)"
    using count_index_of [of ?ws "unat c" "length p" "getKey p"] assms(2) c
    by (simp add: capacity_ok_def)
  also have "\<dots> = (if unat c < length ?ws \<and> length (?ws ! unat c) = length p
       \<and> agrees6 p (?ws ! unat c) then 2 ^ (6 - min (length p) 6) else 0)"
    using words_ok_nth(3) [OF assms(1)] by (auto simp: multiplicity_pattern)
  finally show ?thesis
    by (auto simp: answer_def count_list_filter matching_def admits_def)
qed

definition refines :: "str \<Rightarrow> str \<Rightarrow> bool" where
  "refines p' p \<longleftrightarrow> list_all2 (\<lambda>a' a. a = 0 \<or> a = a') p' p"

lemma matches_refines: "refines p' p \<Longrightarrow> matches 0 p' w \<Longrightarrow> matches 0 p w"
  unfolding refines_def matches_def list_all2_conv_all_nth by metis

lemma matching_mono: "refines p' p \<Longrightarrow> matching d p' \<subseteq> matching d p"
  by (auto simp: matching_eq dest: matches_refines)

lemma matches_unknown: "matches 0 (replicate n 0) w \<longleftrightarrow> length w = n"
  by (auto simp: matches_iff_nth)

lemma matches_self: "matches any w w"
  by (simp add: matches_def list_all2_same)


section \<open>Shuffling keeps the invariant\<close>

definition permuting :: "('i \<Rightarrow> bucket \<Rightarrow> bucket) \<Rightarrow> bool" where
  "permuting f \<longleftrightarrow> (\<forall>i xs. mset (f i xs) = mset xs)"

definition shuffled_heap ::
  "(addr \<Rightarrow> bucket \<Rightarrow> bucket) \<Rightarrow> (str \<times> addr) list \<Rightarrow> (addr \<rightharpoonup> bucket) \<Rightarrow> (addr \<rightharpoonup> bucket)" where
  "shuffled_heap rc c h = fold (\<lambda>(p, a) h. h(a := map_option (rc a) (h a))) c h"

lemma shuffled_heap_None: "shuffled_heap rc c h a = None \<longleftrightarrow> h a = None"
  unfolding shuffled_heap_def by (induction c arbitrary: h) (auto split: prod.splits)

lemma shuffled_heap_Some:
  assumes "permuting rc" and "h a = Some v"
  shows "\<exists>v'. shuffled_heap rc c h a = Some v' \<and> mset v' = mset v"
  using assms(2) unfolding shuffled_heap_def
proof (induction c arbitrary: h v)
  case Nil
  then show ?case by simp
next
  case (Cons x c)
  obtain q b where x: "x = (q, b)" by (cases x)
  let ?h = "h(b := map_option (rc b) (h b))"
  from Cons.prems assms(1) obtain u where "?h a = Some u" "mset u = mset v"
    by (cases "a = b") (auto simp: permuting_def)
  with Cons.IH [of ?h u] show ?case by (auto simp: x)
qed

lemma shuffle_eq:
  "shuffle rs rc d =
     (if list_all (\<lambda>(p, a). heap d a \<noteq> None) (cacheSearchMap d)
      then Inr (d\<lparr>fastSearch := map (\<lambda>(len, t). (\<lambda>k. map_option (rs len k) (t k)))
                                  (enumerate 0 (fastSearch d)),
                heap := shuffled_heap rc (cacheSearchMap d) (heap d)\<rparr>)
      else Inl DanglingPointer)"
  by (simp add: shuffle_def shuffled_heap_def Let_def)

lemma shuffle_effect:
  assumes "shuffle rs rc d = Inr d'"
  shows "allWords d' = allWords d" and "LONGEST_WORD d' = LONGEST_WORD d"
    and "cacheSearchMap d' = cacheSearchMap d" and "brk d' = brk d"
    and "dirtyDict d' = dirtyDict d" and "explanationDict d' = explanationDict d"
    and "heap d' = shuffled_heap rc (cacheSearchMap d) (heap d)"
    and "len < LONGEST_WORD d \<Longrightarrow>
           bucket_at d' len k = (case (fastSearch d ! len) k of None \<Rightarrow> [] | Some b \<Rightarrow> rs len k b)"
  using assms
  by (auto simp: shuffle_eq LONGEST_WORD_def bucket_at_def lookup_default_def nth_enumerate_eq
      split: if_splits option.splits)

lemma shuffle_bucket_mset:
  assumes "shuffle rs rc d = Inr d'" and "permuting (\<lambda>(len, k). rs len k)"
    and "len < LONGEST_WORD d"
  shows "mset (bucket_at d' len k) = mset (bucket_at d len k)"
  using assms(2) unfolding shuffle_effect(8) [OF assms(1,3)]
  by (auto simp: permuting_def bucket_at_def lookup_default_def split: option.splits)

lemma shuffle_no_fault: "cache_ok d \<Longrightarrow> \<exists>d'. shuffle rs rc d = Inr d'"
  by (auto simp: shuffle_eq cache_ok_def list_all_iff)

lemma dict_inv_shuffle:
  assumes inv: "dict_inv d" and s: "shuffle rs rc d = Inr d'"
    and rs: "permuting (\<lambda>(len, k). rs len k)" and rc: "permuting rc"
  shows "dict_inv d'"
proof -
  note E = shuffle_effect [OF s]
  have "words_ok d' = words_ok d" using E by (intro words_ok_cong)
  moreover have "capacity_ok d' = capacity_ok d" using E by (intro capacity_ok_cong)
  moreover have "index_ok d' = index_ok d"
    using E(1,2) shuffle_bucket_mset [OF s rs] by (intro index_ok_cong)
  moreover have "heap_ok d'"
    using inv by (simp add: heap_ok_def dict_inv_def E shuffled_heap_None)
  moreover have "cache_ok d'"
    unfolding cache_ok_def E(2,3,7) answer_cong [OF E(1)]
  proof (intro conjI ballI)
    from inv show "distinct (map fst (cacheSearchMap d))" "distinct (map snd (cacheSearchMap d))"
      by (simp_all add: dict_inv_def cache_ok_def)
    fix x assume x: "x \<in> set (cacheSearchMap d)"
    obtain q a where [simp]: "x = (q, a)" by (cases x)
    from inv x obtain v where "length q < LONGEST_WORD d" "heap d a = Some v"
      "mset v = mset (answer d q)"
      by (auto simp: dict_inv_def cache_ok_def)
    with shuffled_heap_Some [OF rc, of "heap d" a v "cacheSearchMap d"]
    show "case x of (p, a) \<Rightarrow> length p < LONGEST_WORD d \<and>
           (\<exists>v. shuffled_heap rc (cacheSearchMap d) (heap d) a = Some v \<and>
                mset v = mset (answer d p))"
      by auto
  qed
  ultimately show ?thesis using inv by (simp add: dict_inv_def)
qed


section \<open>Loading establishes the invariant\<close>

lemma dict_inv_new: "dict_inv (new_dictionary n)"
  by (simp add: dict_inv_def new_dictionary_def words_ok_def capacity_ok_def index_ok_def
      cache_ok_def heap_ok_def bucket_at_def LONGEST_WORD_def index_from_def)

lemma dict_inv_reset: "heap_ok d \<Longrightarrow> dict_inv (reset d)"
  by (simp add: dict_inv_def words_ok_def capacity_ok_def index_ok_def cache_ok_def heap_ok_def)

lemma dict_inv_load:
  assumes "loadDictionary (Some rs) d = Inr d'" and "length rs \<le> 65536" and "heap_ok d"
  shows "dict_inv d'"
  using assms(2,3) loadDictionary_effect [OF assms(1)]
  by (simp add: dict_inv_def index_exact_ok capacity_ok_def cache_ok_def heap_ok_def)

end
