(* ===== verification/Query_Correctness.thy ===== *)
theory Query_Correctness
  imports Index_Query
begin

text \<open>
  The contract of \<^verbatim>\<open>findPossible\<close>, of \<^verbatim>\<open>shuffle\<close> and of a failed load, stated over
  \<open>query\<close> (a call of \<^verbatim>\<open>findPossible\<close> followed by reading the identifiers of the returned
  view) and
  derived from the lemmas of \<open>Index_Query\<close>.
\<close>

section \<open>The small dictionary is well formed\<close>

lemma ex_dict_simps:
  "allWords ex_dict = [[202, 206, 210], [202, 206, 196], [202, 206, 210]]"
  "LONGEST_WORD ex_dict = 8" "cacheSearchMap ex_dict = []" "heap ex_dict = Map.empty"
  "brk ex_dict = 0"
  using loadDictionary_effect [OF ex_load] ex_words
  by (simp_all add: new_dictionary_def LONGEST_WORD_def)

lemma ex_dict_inv: "dict_inv ex_dict"
  by (rule dict_inv_load [OF ex_load]) (simp_all add: ex_records_def heap_ok_def new_dictionary_def)

lemma ex_query:
  obtains ids d' where "query [202, 0, 210] ex_dict = Inr (ids, d')"
  using ex_dict_inv by (rule query_result) (auto simp: ex_dict_simps)

section \<open>Queries\<close>

lemma query_set:
  assumes "dict_inv d" and "length p < LONGEST_WORD d" and "query p d = Inr (ids, d')"
  shows "unat ` set ids = matching d p" and "dict_inv d'" and "allWords d' = allWords d"
    and "LONGEST_WORD d' = LONGEST_WORD d" and "mset ids = mset (answer d p)"
proof -
  from assms(1,2) obtain ids0 d0 where r: "query p d = Inr (ids0, d0)" "dict_inv d0"
    "allWords d0 = allWords d" "LONGEST_WORD d0 = LONGEST_WORD d" "mset ids0 = mset (answer d p)"
    by (rule query_result)
  with assms(3) have [simp]: "ids0 = ids" "d0 = d'" by simp_all
  from r show "dict_inv d'" "allWords d' = allWords d" "LONGEST_WORD d' = LONGEST_WORD d"
    "mset ids = mset (answer d p)" by simp_all
  from r(5) have "set ids = set (answer d p)" by (auto dest: mset_eq_setD)
  with assms(1) show "unat ` set ids = matching d p"
    by (simp add: unat_set_answer dict_inv_def)
qed

text \<open>
  C1 (functional). On a well-formed dictionary, a query with a pattern shorter than
  \<^verbatim>\<open>LONGEST_WORD\<close> returns, and the identifiers it returns are exactly the positions of
  the words that have the pattern's length and agree with it at every position where
  the pattern is not the unknown byte 0.
\<close>

theorem query_correct:
  assumes "dict_inv d" and "length p < LONGEST_WORD d"
  shows "\<exists>ids d'. query p d = Inr (ids, d')
    \<and> unat ` set ids = {i. i < length (allWords d) \<and> matches 0 p (allWords d ! i)}"
proof -
  from assms obtain ids d' where q: "query p d = Inr (ids, d')" by (rule query_result)
  from query_set(1) [OF assms q] q show ?thesis by (auto simp: matching_eq)
qed

theorem query_correct_witness:
  "\<exists>ids d'. query [202, 0, 210] ex_dict = Inr (ids, d') \<and> unat ` set ids = {0, 2}"
proof -
  from query_correct [OF ex_dict_inv, of "[202, 0, 210]"]
  obtain ids d' where q: "query [202, 0, 210] ex_dict = Inr (ids, d')"
    and s: "unat ` set ids = {i. i < length (allWords ex_dict) \<and>
              matches 0 [202, 0, 210] (allWords ex_dict ! i)}"
    by (auto simp: ex_dict_simps)
  have "{i. i < length (allWords ex_dict) \<and> matches 0 [202, 0, 210] (allWords ex_dict ! i)}
      = {0, 2}"
    by (auto simp: ex_dict_simps matches_def less_Suc_eq numeral_3_eq_3)
  with q s show ?thesis by auto
qed

text \<open>
  C4 (invariant). Such a query returns a dictionary that is again well formed, with
  the same word table and the same number of tables, so any sequence of queries stays
  within the well-formed dictionaries.
\<close>

theorem query_keeps_invariant:
  assumes "dict_inv d" and "length p < LONGEST_WORD d"
  shows "\<exists>ids d'. query p d = Inr (ids, d') \<and> dict_inv d' \<and> allWords d' = allWords d
    \<and> LONGEST_WORD d' = LONGEST_WORD d"
  using query_result [OF assms] by metis

theorem query_keeps_invariant_witness:
  "\<exists>ids d'. query [202, 0, 210] ex_dict = Inr (ids, d') \<and> dict_inv d'
     \<and> allWords d' = [[202, 206, 210], [202, 206, 196], [202, 206, 210]]"
proof -
  from query_keeps_invariant [OF ex_dict_inv, of "[202, 0, 210]"]
  obtain ids d' where "query [202, 0, 210] ex_dict = Inr (ids, d')" "dict_inv d'"
    "allWords d' = allWords ex_dict"
    by (auto simp: ex_dict_simps)
  then show ?thesis by (auto simp: ex_dict_simps)
qed

text \<open>
  C13 (functional). The result is not duplicate free: an identifier of a matching word
  occurs \<open>2 ^ (6 - min (length p) 6)\<close> times in it, once for every mask that differs
  from the pattern's mask only at bit positions beyond the word; other identifiers do
  not occur.
\<close>

theorem query_multiplicity:
  assumes "dict_inv d" and "length p < LONGEST_WORD d" and "query p d = Inr (ids, d')"
  shows "count_list ids c =
    (if unat c < length (allWords d) \<and> matches 0 p (allWords d ! unat c)
     then 2 ^ (6 - min (length p) 6) else 0)"
proof -
  have "count_list ids c = count_list (answer d p) c"
    using query_set(5) [OF assms] by (simp flip: count_mset_list)
  with assms(1) show ?thesis
    by (simp add: count_answer dict_inv_def matching_eq)
qed

theorem query_multiplicity_witness:
  "\<exists>ids d'. query [202, 0, 210] ex_dict = Inr (ids, d')
     \<and> count_list ids 0 = 8 \<and> count_list ids 1 = 0 \<and> count_list ids 2 = 8"
proof -
  obtain ids d' where q: "query [202, 0, 210] ex_dict = Inr (ids, d')" by (rule ex_query)
  note m = query_multiplicity [OF ex_dict_inv _ q]
  have "count_list ids 0 = 8" "count_list ids 1 = 0" "count_list ids 2 = 8"
    using m [of 0] m [of 1] m [of 2] by (simp_all add: ex_dict_simps matches_def)
  with q show ?thesis by blast
qed

text \<open>
  C15 (functional). A query that returned is answered from the cache from then on:
  repeating it returns the same identifiers in the same order and changes nothing.
\<close>

theorem query_idempotent:
  assumes "query p d = Inr (ids, d')"
  shows "query p d' = Inr (ids, d')"
  using query_cached [OF assms] by (auto intro: query_hit)

theorem query_idempotent_witness:
  "\<exists>ids d'. query [202, 0, 210] ex_dict = Inr (ids, d') \<and> query [202, 0, 210] d' = Inr (ids, d')"
proof -
  obtain ids d' where q: "query [202, 0, 210] ex_dict = Inr (ids, d')" by (rule ex_query)
  with query_idempotent [OF q] show ?thesis by blast
qed

text \<open>
  C18 (error). On a well-formed dictionary a pattern of \<^verbatim>\<open>LONGEST_WORD\<close> or more bytes
  is never answered with the empty result: the query reads \<^verbatim>\<open>_fastSearch[pattern.size()]\<close>
  beyond the array.
\<close>

theorem long_pattern_faults:
  assumes "dict_inv d" and "LONGEST_WORD d \<le> length p"
  shows "query p d = Inl OutOfBounds"
proof (cases "map_of (cacheSearchMap d) p")
  case None
  with assms(2) show ?thesis by (simp add: query_def findPossible_out_of_bounds)
next
  case (Some a)
  with assms cached_short [OF assms(1) Some] show ?thesis by simp
qed

theorem long_pattern_faults_witness:
  "query (replicate 8 0) ex_dict = Inl OutOfBounds"
  using long_pattern_faults [OF ex_dict_inv, of "replicate 8 0"] by (simp add: ex_dict_simps)

text \<open>
  C31 (safety). Filling unknown positions of a pattern can only remove candidates: the
  identifiers returned for the more specific pattern are among those returned for the
  original one, also when the second query runs on the dictionary the first one left.
\<close>

theorem query_monotone:
  assumes "dict_inv d" and "length p < LONGEST_WORD d" and "refines p' p"
    and "query p d = Inr (ids, d1)" and "query p' d1 = Inr (ids', d2)"
  shows "set ids' \<subseteq> set ids"
proof -
  note Q = query_set [OF assms(1,2,4)]
  from assms(3) have "length p' = length p" by (simp add: refines_def list_all2_lengthD)
  with assms(2) Q have "unat ` set ids' = matching d1 p'"
    by (intro query_set(1) [OF _ _ assms(5)]) simp_all
  also have "\<dots> = matching d p'" using Q(3) by (simp add: matching_eq)
  also have "\<dots> \<subseteq> matching d p" using assms(3) by (rule matching_mono)
  finally have "unat ` set ids' \<subseteq> unat ` set ids" using Q(1) by simp
  then show ?thesis by (simp add: inj_image_subset_iff)
qed

theorem query_monotone_witness:
  "\<exists>ids d1 ids' d2. query [202, 0, 0] ex_dict = Inr (ids, d1)
     \<and> query [202, 0, 210] d1 = Inr (ids', d2) \<and> set ids' \<subseteq> set ids"
proof -
  have r: "refines [202, 0, 210] [202, 0, 0]" by (simp add: refines_def)
  from ex_dict_inv obtain ids d1 where q1: "query [202, 0, 0] ex_dict = Inr (ids, d1)"
    "dict_inv d1" "allWords d1 = allWords ex_dict" "LONGEST_WORD d1 = LONGEST_WORD ex_dict"
    by (rule query_result) (auto simp: ex_dict_simps)
  from q1(2) obtain ids' d2 where q2: "query [202, 0, 210] d1 = Inr (ids', d2)"
    by (rule query_result) (auto simp: q1 ex_dict_simps)
  from query_monotone [OF ex_dict_inv _ r q1(1) q2] q1(1) q2 show ?thesis
    by (auto simp: ex_dict_simps)
qed

text \<open>
  C38 (functional). A query is not read-only on the index: a pattern whose key has no
  bucket gets an empty bucket inserted by \<^verbatim>\<open>operator[]\<close>, and an empty vector is
  allocated at the next free address and cached under the pattern.
\<close>

theorem query_extends_index:
  assumes "dict_inv d" and "length p < LONGEST_WORD d" and "map_of (cacheSearchMap d) p = None"
    and "(fastSearch d ! length p) (getKey p) = None"
  shows "\<exists>d'. query p d = Inr ([], d') \<and> (fastSearch d' ! length p) (getKey p) = Some []
     \<and> brk d' = Suc (brk d) \<and> heap d' (brk d) = Some []
     \<and> map_of (cacheSearchMap d') p = Some (brk d)"
proof -
  from assms(1,2) have r: "\<forall>c\<in>set (bucket_at d (length p) (getKey p)). readable d p c"
    by (auto simp: readable_def dict_inv_def dest: bucket_readable)
  from assms(4) have "impl_answer d p = []"
    by (simp add: impl_answer_def bucket_at_def)
  with query_miss [OF assms(3,2) r] assms(2,4) show ?thesis
    by (simp add: cache_store_eq touched_def subscript_def LONGEST_WORD_def update_conv')
qed

theorem query_extends_index_witness:
  "\<exists>d'. query [193, 0] (new_dictionary 8) = Inr ([], d')
     \<and> (fastSearch (new_dictionary 8) ! 2) (getKey [193, 0]) = None
     \<and> (fastSearch d' ! 2) (getKey [193, 0]) = Some []"
  using query_extends_index [OF dict_inv_new, of "[193, 0]" 8]
  by (auto simp: new_dictionary_def LONGEST_WORD_def numeral_2_eq_2)

section \<open>Shuffling and failed loads\<close>

text \<open>
  C30 (invariant). Whatever permutations \<^verbatim>\<open>std::random_shuffle\<close> applies, shuffling a
  well-formed dictionary returns a well-formed dictionary with the same word table and
  cache keys, in which every bucket holds the same identifiers with the same
  multiplicities.
\<close>

theorem shuffle_keeps_answers:
  assumes "dict_inv d" and "permuting (\<lambda>(len, k). rs len k)" and "permuting rc"
  shows "\<exists>d'. shuffle rs rc d = Inr d' \<and> dict_inv d' \<and> allWords d' = allWords d
     \<and> cacheSearchMap d' = cacheSearchMap d
     \<and> (\<forall>len<LONGEST_WORD d. \<forall>k. mset (bucket_at d' len k) = mset (bucket_at d len k))"
proof -
  from assms(1) obtain d' where s: "shuffle rs rc d = Inr d'"
    using shuffle_no_fault [of d rs rc] by (auto simp: dict_inv_def)
  moreover have "dict_inv d'" using assms(1) s assms(2,3) by (rule dict_inv_shuffle)
  moreover have "\<forall>len<LONGEST_WORD d. \<forall>k. mset (bucket_at d' len k) = mset (bucket_at d len k)"
    using shuffle_bucket_mset [OF s assms(2)] by simp
  ultimately show ?thesis by (simp add: shuffle_effect(1,3) [OF s])
qed

theorem shuffle_keeps_answers_witness:
  "\<exists>d'. shuffle (\<lambda>len k. rev) (\<lambda>a. rev) ex_dict = Inr d' \<and> dict_inv d'
     \<and> allWords d' = allWords ex_dict"
  using shuffle_keeps_answers [OF ex_dict_inv, of "\<lambda>len k. rev" "\<lambda>a. rev"]
  by (auto simp: permuting_def)

text \<open>
  Loading from a file that cannot be opened is not an error: it returns
  the dictionary reset, with no words and, if the heap was well formed, the invariant.
\<close>

theorem unreadable_file_empties:
  "loadDictionary None d = Inr (reset d) \<and> allWords (reset d) = []
   \<and> (\<forall>len<LONGEST_WORD d. \<forall>k. bucket_at (reset d) len k = [])
   \<and> (heap_ok d \<longrightarrow> dict_inv (reset d))"
  by (simp add: dict_inv_reset)

theorem unreadable_file_empties_witness:
  "loadDictionary None ex_dict = Inr (reset ex_dict) \<and> bucket_at (reset ex_dict) 3 0 = []"
  using unreadable_file_empties [of ex_dict] by (simp add: ex_dict_simps)

section \<open>The testable properties of the specification\<close>

text \<open>A word of the table, taken as a pattern, finds itself.\<close>

lemma query_finds_itself:
  assumes "dict_inv d" and "i < length (allWords d)"
  obtains ids d' where "query (allWords d ! i) d = Inr (ids, d')" "i \<in> unat ` set ids"
proof -
  from words_ok_nth(2) [OF dict_invD(1) [OF assms(1)] assms(2)]
  have "length (allWords d ! i) < LONGEST_WORD d" .
  with assms(1) obtain ids d' where q: "query (allWords d ! i) d = Inr (ids, d')"
    by (rule query_result)
  from query_set(1) [OF assms(1) _ q] \<open>length (allWords d ! i) < LONGEST_WORD d\<close> assms(2)
  have "i \<in> unat ` set ids"
    by (simp add: matching_eq matches_def list_all2_same)
  with q that show thesis by blast
qed

text \<open>A pattern of unknown positions only finds exactly the words of its length.\<close>

lemma query_all_unknown:
  assumes "dict_inv d" and "n < LONGEST_WORD d"
  obtains ids d' where "query (replicate n 0) d = Inr (ids, d')"
    "unat ` set ids = {i. i < length (allWords d) \<and> length (allWords d ! i) = n}"
proof -
  from assms(2) have "length (replicate n (0 :: byte)) < LONGEST_WORD d" by simp
  with assms(1) obtain ids d' where q: "query (replicate n 0) d = Inr (ids, d')"
    by (rule query_result)
  have "matches 0 (replicate n 0) w \<longleftrightarrow> length w = n" for w
    by (auto simp: matches_def list_all2_conv_all_nth)
  with query_set(1) [OF assms(1) _ q] assms(2)
  have "unat ` set ids = {i. i < length (allWords d) \<and> length (allWords d ! i) = n}"
    by (simp add: matching_eq)
  with q that show thesis by blast
qed

end
