(* ===== verification/Cache_Storage.thy ===== *)
theory Cache_Storage
  imports Index_Query
begin

text \<open>
  Ownership of the vectors that \<^verbatim>\<open>findPossible\<close> allocates. The cache owns them: the
  destructor deletes the vector of every cache entry. \<open>owned\<close> says that the cache
  refers to every live vector; with the invariant, which makes the cached addresses
  distinct and alive, the destructor then deletes every vector exactly once. \<^verbatim>\<open>reset\<close>
  clears the cache without deleting, after which the vectors can no longer be reached.
\<close>

section \<open>Deleting the cached vectors\<close>

definition owned :: "dictionary \<Rightarrow> bool" where
  "owned d \<longleftrightarrow> dom (heap d) = snd ` set (cacheSearchMap d)"

definition leaked :: "dictionary \<Rightarrow> addr set" where
  "leaked d = dom (heap d) - snd ` set (cacheSearchMap d)"

lemma delete_vector_live: "h a = Some v \<Longrightarrow> delete_vector a h = Inr (h(a := None))"
  by (simp add: delete_vector_def)

lemma delete_vector_dead: "h a = None \<Longrightarrow> delete_vector a h = Inl DanglingPointer"
  by (simp add: delete_vector_def)

lemma snd_cached [simp, intro]: "(p, a) \<in> set c \<Longrightarrow> a \<in> snd ` set c"
  by force

lemma delete_all_dead:
  assumes "a \<in> snd ` set c" and "h a = None"
  shows "delete_all c h = Inl DanglingPointer"
  using assms
proof (induction c arbitrary: h)
  case Nil
  then show ?case by simp
next
  case (Cons x c)
  show ?case
  proof (cases "h (snd x)")
    case None
    then show ?thesis by (simp add: delete_vector_dead)
  next
    case (Some v)
    with Cons.prems have "a \<in> snd ` set c" "(h(snd x := None)) a = None" by auto
    with Some Cons.IH show ?thesis by (simp add: delete_vector_live)
  qed
qed

lemma delete_all_distinct:
  assumes "distinct (map snd c)" and "\<forall>x\<in>set c. h (snd x) \<noteq> None"
  shows "delete_all c h = Inr (h |` (- snd ` set c))"
  using assms
proof (induction c arbitrary: h)
  case Nil
  then show ?case by simp
next
  case (Cons x c)
  from Cons.prems obtain v where v: "h (snd x) = Some v" by auto
  let ?h = "h(snd x := None)"
  have "delete_all c ?h = Inr (?h |` (- snd ` set c))"
    using Cons.prems by (intro Cons.IH) auto
  moreover have "?h |` (- snd ` set c) = h |` (- snd ` set (x # c))"
    by (simp add: restrict_map_def fun_eq_iff)
  ultimately show ?case using v by (simp add: delete_vector_live)
qed

text \<open>Two cache entries with the same pointer make the destructor delete twice.\<close>

lemma delete_all_twice:
  assumes "\<not> distinct (map snd c)"
  shows "delete_all c h = Inl DanglingPointer"
  using assms
proof (induction c arbitrary: h)
  case Nil
  then show ?case by simp
next
  case (Cons x c)
  show ?case
  proof (cases "h (snd x)")
    case None
    then show ?thesis by (simp add: delete_vector_dead)
  next
    case (Some v)
    show ?thesis
    proof (cases "distinct (map snd c)")
      case False
      with Some Cons.IH show ?thesis by (simp add: delete_vector_live)
    next
      case True
      with Cons.prems have "snd x \<in> snd ` set c" by simp
      then have "delete_all c (h(snd x := None)) = Inl DanglingPointer"
        by (rule delete_all_dead) simp
      with Some show ?thesis by (simp add: delete_vector_live)
    qed
  qed
qed

lemma destroy_eq:
  assumes "cache_ok d"
  shows "destroy d = Inr (heap d |` (- snd ` set (cacheSearchMap d)))"
  unfolding destroy_def using assms
  by (intro delete_all_distinct) (auto simp: cache_ok_def)

lemma dom_destroy:
  assumes "cache_ok d" and "destroy d = Inr h"
  shows "dom h = leaked d"
  using assms by (auto simp: destroy_eq leaked_def restrict_map_def dom_def split: if_splits)

section \<open>Who keeps the cache owned\<close>

lemma owned_new: "owned (new_dictionary n)"
  by (simp add: owned_def new_dictionary_def)

lemma leaked_owned: "owned d \<longleftrightarrow> leaked d = {} \<and> snd ` set (cacheSearchMap d) \<subseteq> dom (heap d)"
  by (auto simp: owned_def leaked_def)

lemma owned_findPossible:
  assumes "findPossible p d = Inr (v, d')" and "owned d"
  shows "owned d'"
proof (cases "map_of (cacheSearchMap d) p")
  case (Some a)
  with assms show ?thesis by (auto simp: findPossible_def split: option.splits)
next
  case None
  then have "set (AList.update p a (cacheSearchMap d)) = insert (p, a) (set (cacheSearchMap d))"
    for a by (simp add: update_absent)
  moreover from assms(1) None have "heap d' = (heap d)(brk d \<mapsto> the (heap d' (brk d)))"
    "cacheSearchMap d' = AList.update p (brk d) (cacheSearchMap d)"
    by (auto simp: findPossible_def Let_def cache_store_eq split: if_splits sum.splits)
  ultimately have "dom (heap d') = insert (brk d) (dom (heap d))"
    "snd ` set (cacheSearchMap d') = insert (brk d) (snd ` set (cacheSearchMap d))"
    by (metis dom_fun_upd option.distinct(1), simp)
  with assms(2) show ?thesis by (simp add: owned_def)
qed

lemma owned_shuffle:
  assumes "shuffle rs rc d = Inr d'" and "owned d"
  shows "owned d'"
  using assms(2) shuffle_effect(3,7) [OF assms(1)]
  by (auto simp: owned_def dom_def shuffled_heap_None)

lemma leaked_reset: "leaked (reset d) = dom (heap d)"
  by (simp add: leaked_def)

end
