(* ===== verification/Index_Machine.thy ===== *)
theory Index_Machine
  imports Cache_Storage Query_Correctness
begin

text \<open>
  The public surface of the dictionary as a machine. A \<open>call\<close> is one of the
  state-changing member functions with its arguments, \<open>exec\<close> runs one call and \<open>run\<close> a
  sequence of calls; \<open>construct\<close> is what both constructors do once the path of the
  dictionary file is known. \<open>step\<close> is the transition relation of the calls that return,
  and \<open>reachable\<close> the states a client can bring a fresh object into with calls whose
  inputs are \<open>fair\<close>: files of at most 65536 records, shuffles that permute. The views
  that queries hand out are followed through later calls: they resolve to the matching
  words in every reachable state, and keep doing so until the table of words is cleared.
\<close>

section \<open>Calls\<close>

datatype call =
  Load "(str \<times> str) list option"
| Shuffle "nat \<Rightarrow> key \<Rightarrow> bucket \<Rightarrow> bucket" "addr \<Rightarrow> bucket \<Rightarrow> bucket"
| Find str
| Reset

fun exec :: "call \<Rightarrow> dictionary \<Rightarrow> fault + dictionary" where
  "exec (Load file) d = loadDictionary file d"
| "exec (Shuffle rs rc) d = shuffle rs rc d"
| "exec (Find pattern) d = (case findPossible pattern d of Inl e \<Rightarrow> Inl e | Inr (v, d') \<Rightarrow> Inr d')"
| "exec Reset d = Inr (reset d)"

fun run :: "call list \<Rightarrow> dictionary \<Rightarrow> fault + dictionary" where
  "run [] d = Inr d"
| "run (c # cs) d = (case exec c d of Inl e \<Rightarrow> Inl e | Inr d' \<Rightarrow> run cs d')"

text \<open>The tail of both constructors: \<^verbatim>\<open>loadDictionary(); shuffle();\<close> on the fresh object.\<close>

definition construct ::
  "nat \<Rightarrow> (str \<times> str) list option \<Rightarrow> (nat \<Rightarrow> key \<Rightarrow> bucket \<Rightarrow> bucket) \<Rightarrow> (addr \<Rightarrow> bucket \<Rightarrow> bucket)
     \<Rightarrow> fault + dictionary" where
  "construct longest file rs rc =
     (case loadDictionary file (new_dictionary longest) of
        Inl e \<Rightarrow> Inl e
      | Inr d \<Rightarrow> shuffle rs rc d)"

section \<open>Transitions\<close>

inductive step :: "dictionary \<Rightarrow> call \<Rightarrow> dictionary \<Rightarrow> bool" where
  load: "loadDictionary file d = Inr d' \<Longrightarrow> step d (Load file) d'"
| shuffle: "shuffle rs rc d = Inr d' \<Longrightarrow> step d (Shuffle rs rc) d'"
| find: "findPossible pattern d = Inr (v, d') \<Longrightarrow> step d (Find pattern) d'"
| reset: "step d Reset (reset d)"

inductive_cases step_LoadE: "step d (Load file) d'"
inductive_cases step_ShuffleE: "step d (Shuffle rs rc) d'"
inductive_cases step_FindE: "step d (Find pattern) d'"
inductive_cases step_ResetE: "step d Reset d'"

lemmas step_elims = step_LoadE step_ShuffleE step_FindE step_ResetE

fun fair :: "call \<Rightarrow> bool" where
  "fair (Load file) = (case file of None \<Rightarrow> True | Some records \<Rightarrow> length records \<le> 65536)"
| "fair (Shuffle rs rc) = (permuting (\<lambda>(len, k). rs len k) \<and> permuting rc)"
| "fair (Find pattern) = True"
| "fair Reset = True"

inductive reachable :: "nat \<Rightarrow> dictionary \<Rightarrow> bool" for n where
  init: "reachable n (new_dictionary n)"
| after: "reachable n d \<Longrightarrow> fair c \<Longrightarrow> step d c d' \<Longrightarrow> reachable n d'"

text \<open>The calls that return are the transitions.\<close>

lemma step_iff_exec: "step d c d' \<longleftrightarrow> exec c d = Inr d'"
  by (cases c) (auto intro: step.intros elim: step_elims split: sum.splits)

lemma run_append:
  "run (cs @ cs') d = (case run cs d of Inl e \<Rightarrow> Inl e | Inr d' \<Rightarrow> run cs' d')"
  by (induction cs arbitrary: d) (auto split: sum.splits)

lemma run_snoc:
  "run (cs @ [c]) d = Inr d' \<longleftrightarrow> (\<exists>d1. run cs d = Inr d1 \<and> step d1 c d')"
  by (auto simp: run_append step_iff_exec split: sum.splits)

lemma reachable_iff_run:
  "reachable n d \<longleftrightarrow> (\<exists>cs. list_all fair cs \<and> run cs (new_dictionary n) = Inr d)"
proof
  assume "reachable n d"
  then show "\<exists>cs. list_all fair cs \<and> run cs (new_dictionary n) = Inr d"
  proof induction
    case init
    have "list_all fair [] \<and> run [] (new_dictionary n) = Inr (new_dictionary n)" by simp
    then show ?case by blast
  next
    case (after d c d')
    then obtain cs where "list_all fair cs" "run cs (new_dictionary n) = Inr d" by blast
    with after.hyps(2,3) have "list_all fair (cs @ [c]) \<and> run (cs @ [c]) (new_dictionary n) = Inr d'"
      by (auto simp: run_snoc)
    then show ?case by blast
  qed
next
  assume "\<exists>cs. list_all fair cs \<and> run cs (new_dictionary n) = Inr d"
  then obtain cs where "list_all fair cs" "run cs (new_dictionary n) = Inr d" by blast
  then show "reachable n d"
  proof (induction cs arbitrary: d rule: rev_induct)
    case Nil
    then show ?case by (auto intro: reachable.init)
  next
    case (snoc c cs)
    from snoc.prems(2) obtain d1 where "run cs (new_dictionary n) = Inr d1" "step d1 c d"
      by (auto simp: run_snoc)
    with snoc show ?case by (auto intro: reachable.after)
  qed
qed

section \<open>The invariant of the reachable states\<close>

lemma findPossible_query:
  assumes "findPossible p d = Inr (v, d')" and "dict_inv d"
  shows "length p < LONGEST_WORD d" and "\<exists>ids. query p d = Inr (ids, d')"
proof -
  show len: "length p < LONGEST_WORD d"
  proof (rule ccontr)
    assume "\<not> length p < LONGEST_WORD d"
    then have "LONGEST_WORD d \<le> length p" by simp
    with assms(1) show False
      by (cases "map_of (cacheSearchMap d) p")
        (auto simp: findPossible_out_of_bounds dest: cached_short [OF assms(2)])
  qed
  from assms(2) len obtain ids d0 where "query p d = Inr (ids, d0)" by (rule query_result)
  with assms(1) show "\<exists>ids. query p d = Inr (ids, d')"
    by (auto simp: query_def split: sum.splits)
qed

lemma dict_inv_findPossible:
  assumes "findPossible p d = Inr (v, d')" and "dict_inv d"
  shows "dict_inv d'" and "LONGEST_WORD d' = LONGEST_WORD d" and "allWords d' = allWords d"
proof -
  from findPossible_query [OF assms] obtain ids where
    "length p < LONGEST_WORD d" "query p d = Inr (ids, d')" by blast
  with assms(2) show "dict_inv d'" "LONGEST_WORD d' = LONGEST_WORD d" "allWords d' = allWords d"
    by (auto elim: query_result)
qed

lemma dict_inv_step:
  assumes "step d c d'" and "fair c" and "dict_inv d"
  shows "dict_inv d' \<and> LONGEST_WORD d' = LONGEST_WORD d"
  using assms
proof (cases rule: step.cases)
  case (load f)
  show ?thesis
  proof (cases f)
    case None
    with load dict_invD(5) [OF assms(3)] show ?thesis by (auto intro: dict_inv_reset)
  next
    case (Some rs)
    with load assms show ?thesis
      by (auto simp: dict_inv_def [of d] loadDictionary_effect(2) intro: dict_inv_load)
  qed
next
  case (shuffle rs rc)
  with assms show ?thesis by (auto simp: shuffle_effect(2) intro: dict_inv_shuffle)
next
  case (find pattern v)
  with assms(3) show ?thesis by (simp add: dict_inv_findPossible)
next
  case reset
  with dict_invD(5) [OF assms(3)] show ?thesis by (auto intro: dict_inv_reset)
qed


lemma dict_inv_run:
  assumes "run cs d = Inr d'" and "list_all fair cs" and "dict_inv d"
  shows "dict_inv d' \<and> LONGEST_WORD d' = LONGEST_WORD d"
  using assms
proof (induction cs arbitrary: d)
  case Nil
  then show ?case by simp
next
  case (Cons c cs)
  from Cons.prems(1) obtain d1 where d1: "step d c d1" "run cs d1 = Inr d'"
    by (auto simp: step_iff_exec split: sum.splits)
  from dict_inv_step [OF d1(1) _ Cons.prems(3)] Cons.prems(2)
  have "dict_inv d1 \<and> LONGEST_WORD d1 = LONGEST_WORD d" by simp
  with Cons.IH [OF d1(2)] Cons.prems(2) show ?case by simp
qed

section \<open>Which calls return\<close>

fun accepts :: "nat \<Rightarrow> call \<Rightarrow> bool" where
  "accepts n (Load file) =
     (case file of None \<Rightarrow> True
      | Some records \<Rightarrow> list_all (\<lambda>r. length (clean_key (fst r)) < n) records)"
| "accepts n (Shuffle rs rc) = True"
| "accepts n (Find pattern) = (length pattern < n)"
| "accepts n Reset = True"

lemma step_iff_accepts:
  assumes "dict_inv d"
  shows "(\<exists>d'. step d c d') \<longleftrightarrow> accepts (LONGEST_WORD d) c"
proof (cases c)
  case (Load f)
  then show ?thesis
    by (cases f) (auto simp: step_iff_exec list_all_iff loadDictionary_Inr_iff [symmetric])
next
  case (Shuffle rs rc)
  with shuffle_no_fault [OF dict_invD(4) [OF assms], of rs rc] show ?thesis
    by (simp add: step_iff_exec)
next
  case (Find p)
  show ?thesis
  proof
    assume "\<exists>d'. step d c d'"
    with Find assms show "accepts (LONGEST_WORD d) c"
      by (auto elim!: step_FindE dest: findPossible_query(1))
  next
    assume "accepts (LONGEST_WORD d) c"
    with Find have "length p < LONGEST_WORD d" by simp
    with assms obtain ids d' where "query p d = Inr (ids, d')" by (rule query_result)
    with Find show "\<exists>d'. step d c d'"
      by (auto simp: step_iff_exec query_def split: sum.splits)
  qed
next
  case Reset
  then show ?thesis by (simp add: step_iff_exec)
qed

section \<open>Views and the store\<close>

text \<open>A live vector stays alive, with the same elements, through every call that returns.\<close>

lemma heap_step:
  assumes "step d c d'" and "fair c" and "heap_ok d" and "heap d a = Some x"
  shows "\<exists>x'. heap d' a = Some x' \<and> mset x' = mset x"
  using assms(1)
proof (cases rule: step.cases)
  case (load f)
  then have "heap d' = heap d"
    by (cases f) (auto dest: loadDictionary_effect(4))
  with assms(4) show ?thesis by simp
next
  case (shuffle rs rc)
  with assms(2,4) show ?thesis
    by (auto simp: shuffle_effect(7) intro: shuffled_heap_Some)
next
  case (find p v)
  from assms(3,4) have "a \<noteq> brk d" by (auto simp: heap_ok_def)
  with find assms(4) show ?thesis
    by (auto simp: findPossible_def Let_def cache_store_eq split: option.splits if_splits sum.splits)
next
  case reset
  with assms(4) show ?thesis by simp
qed

lemma heap_run:
  assumes "run cs d = Inr d'" and "list_all fair cs" and "dict_inv d" and "heap d a = Some x"
  shows "\<exists>x'. heap d' a = Some x' \<and> mset x' = mset x"
  using assms
proof (induction cs arbitrary: d x)
  case Nil
  then show ?case by simp
next
  case (Cons c cs)
  from Cons.prems(1) obtain d1 where d1: "step d c d1" "run cs d1 = Inr d'"
    by (auto simp: step_iff_exec split: sum.splits)
  from Cons.prems d1(1) have inv: "dict_inv d1" by (auto dest: dict_inv_step)
  from heap_step [OF d1(1) _ dict_invD(5) [OF Cons.prems(3)] Cons.prems(4)] Cons.prems(2)
  obtain x1 where "heap d1 a = Some x1" "mset x1 = mset x" by auto
  with Cons.IH [OF d1(2) _ inv, of x1] Cons.prems(2) show ?case by auto
qed

text \<open>The calls that neither clear the cache nor replace the table of words.\<close>

fun keeps :: "call \<Rightarrow> bool" where
  "keeps (Load file) = False"
| "keeps (Shuffle rs rc) = True"
| "keeps (Find pattern) = True"
| "keeps Reset = False"

text \<open>
  The view that \<^verbatim>\<open>findPossible\<close> returns spans the whole vector that a \<open>query\<close> reads, and
  resolves through \<^verbatim>\<open>getFromIndex\<close>.
\<close>

lemma findPossible_view:
  assumes "findPossible p d = Inr (v, d')"
  shows "\<exists>ids. heap d' (view_begin v) = Some ids \<and> view_size v = length ids
     \<and> view_get v = getFromIndex \<and> query p d = Inr (ids, d')"
  using assms
  by (cases "map_of (cacheSearchMap d) p")
    (auto simp: query_def view_ids_def findPossible_def Let_def cache_store_eq
      split: option.splits if_splits sum.splits)

lemma resolve_all_getFromIndex:
  "resolve_all (getFromIndex d) ids =
     (if \<forall>c\<in>set ids. unat c < length (allWords d)
      then Inr (map (\<lambda>c. allWords d ! unat c) ids) else Inl OutOfBounds)"
  by (induction ids) (auto simp: getFromIndex_def)

lemma view_words_eq:
  assumes "heap d (view_begin v) = Some ids" and "view_size v = length ids"
    and "view_get v = getFromIndex"
  shows "view_words d v =
     (if \<forall>c\<in>set ids. unat c < length (allWords d)
      then Inr (map (\<lambda>c. allWords d ! unat c) ids) else Inl OutOfBounds)"
  using assms by (simp add: view_words_def view_ids_def resolve_all_getFromIndex)

text \<open>On a well-formed object every identifier of the view resolves when it is returned.\<close>

lemma findPossible_words:
  assumes "findPossible p d = Inr (v, d')" and "dict_inv d"
  obtains ids where "query p d = Inr (ids, d')" "heap d' (view_begin v) = Some ids"
    "view_size v = length ids" "view_get v = getFromIndex"
    "\<forall>c\<in>set ids. unat c < length (allWords d')"
    "view_words d' v = Inr (map (\<lambda>c. allWords d' ! unat c) ids)"
proof -
  from findPossible_view [OF assms(1)] obtain ids where
    v: "heap d' (view_begin v) = Some ids" "view_size v = length ids"
      "view_get v = getFromIndex" and q: "query p d = Inr (ids, d')"
    by blast
  note Q = query_set [OF assms(2) findPossible_query(1) [OF assms] q]
  from Q(1,3) have r: "\<forall>c\<in>set ids. unat c < length (allWords d')"
    by (auto simp: matching_eq)
  with v have "view_words d' v = Inr (map (\<lambda>c. allWords d' ! unat c) ids)"
    by (simp add: view_words_eq)
  with v q r that show thesis by blast
qed

text \<open>Queries and shuffles leave the table of words as it is.\<close>

lemma allWords_run:
  assumes "run cs d = Inr d'" and "list_all fair cs" and "list_all keeps cs" and "dict_inv d"
  shows "allWords d' = allWords d"
  using assms
proof (induction cs arbitrary: d)
  case Nil
  then show ?case by simp
next
  case (Cons c cs)
  from Cons.prems(1) obtain d1 where d1: "step d c d1" "run cs d1 = Inr d'"
    by (auto simp: step_iff_exec split: sum.splits)
  from Cons.prems d1(1) have inv: "dict_inv d1" by (auto dest: dict_inv_step)
  from d1(1) Cons.prems(3,4) have "allWords d1 = allWords d"
    by (cases rule: step.cases) (auto simp: shuffle_effect(1) dict_inv_findPossible(3))
  with Cons.IH [OF d1(2) _ _ inv] Cons.prems(2,3) show ?case by simp
qed

section \<open>Calls that keep the cache in possession of the store\<close>

lemma owned_run:
  assumes "run cs d = Inr d'" and "list_all keeps cs" and "owned d"
  shows "owned d'"
  using assms
proof (induction cs arbitrary: d)
  case Nil
  then show ?case by simp
next
  case (Cons c cs)
  from Cons.prems(1) obtain d1 where d1: "step d c d1" "run cs d1 = Inr d'"
    by (auto simp: step_iff_exec split: sum.splits)
  from d1(1) Cons.prems(2,3) have "owned d1"
    by (cases rule: step.cases) (auto intro: owned_findPossible owned_shuffle)
  with Cons.IH [OF d1(2)] Cons.prems(2) show ?case by simp
qed

lemma destroy_owned: "cache_ok d \<Longrightarrow> owned d \<Longrightarrow> destroy d = Inr Map.empty"
  by (auto simp: destroy_eq owned_def restrict_map_def fun_eq_iff)


section \<open>Construction\<close>

lemma construct_Inr:
  assumes "construct n f rs rc = Inr d"
  obtains d0 where "loadDictionary f (new_dictionary n) = Inr d0" "shuffle rs rc d0 = Inr d"
  using assms by (auto simp: construct_def split: sum.splits)

lemma construct_inv:
  assumes "construct n f rs rc = Inr d" and "fair (Load f)" and "fair (Shuffle rs rc)"
  shows "dict_inv d" and "LONGEST_WORD d = n" and "owned d"
    and "allWords d = (case f of None \<Rightarrow> [] | Some records \<Rightarrow> map (clean_key \<circ> fst) records)"
proof -
  from assms(1) obtain d0 where d0: "loadDictionary f (new_dictionary n) = Inr d0"
    "shuffle rs rc d0 = Inr d" by (rule construct_Inr)
  then have r: "run [Load f, Shuffle rs rc] (new_dictionary n) = Inr d" by simp
  with assms(2,3) dict_inv_run [OF r _ dict_inv_new] show "dict_inv d" "LONGEST_WORD d = n"
    by (simp_all add: new_dictionary_def LONGEST_WORD_def)
  from d0(1) have c: "cacheSearchMap d0 = []" "heap d0 = Map.empty"
    by (cases f; auto simp: new_dictionary_def dest: loadDictionary_effect(3,4))+
  then have "owned d0" by (simp add: owned_def)
  with d0(2) show "owned d" by (rule owned_shuffle)
  from d0 show "allWords d = (case f of None \<Rightarrow> [] | Some records \<Rightarrow> map (clean_key \<circ> fst) records)"
    by (cases f) (auto simp: shuffle_effect(1) dest: loadDictionary_effect(1))
qed

section \<open>The guarantees of the machine\<close>

lemma reachable_ex_dict: "reachable 8 ex_dict"
proof -
  have "step (new_dictionary 8) (Load (Some ex_records)) ex_dict"
    using ex_load by (rule step.load)
  moreover have "fair (Load (Some ex_records))" by (simp add: ex_records_def)
  ultimately show ?thesis by (intro reachable.after [OF reachable.init])
qed

lemma find_returns:
  assumes "dict_inv d" and "length p < LONGEST_WORD d"
  obtains d1 where "step d (Find p) d1" "dict_inv d1" "LONGEST_WORD d1 = LONGEST_WORD d"
proof -
  from step_iff_accepts [OF assms(1), of "Find p"] assms(2)
  have "\<exists>d1. step d (Find p) d1" by simp
  then obtain d1 where d1: "step d (Find p) d1" ..
  with dict_inv_step [OF d1 _ assms(1)] that show thesis by simp
qed

text \<open>
  C5 (invariant). Every state that a fresh object with \<open>n\<close> tables reaches through
  calls with fair inputs that return is well formed and still has \<open>n\<close> tables.
\<close>

theorem reachable_invariant:
  assumes "reachable n d"
  shows "dict_inv d \<and> LONGEST_WORD d = n"
  using assms
proof induction
  case init
  show ?case by (simp add: dict_inv_new) (simp add: new_dictionary_def LONGEST_WORD_def)
next
  case (after d c d')
  with dict_inv_step [of d c d'] show ?case by simp
qed

theorem reachable_invariant_witness:
  "reachable 8 ex_dict \<and> dict_inv ex_dict \<and> LONGEST_WORD ex_dict = 8"
  using reachable_invariant [OF reachable_ex_dict] reachable_ex_dict by simp

text \<open>
  C21 (safety). In a well-formed state a call returns exactly when the lengths it brings
  are below the number of tables: the pattern of a query, the canonical key of every
  record of a file. Every other call is an access beyond \<^verbatim>\<open>_fastSearch\<close>; in particular
  no call on a well-formed state reads a deleted vector or a word that is not in the
  table.
\<close>

theorem calls_return_iff:
  assumes "dict_inv d"
  shows "(if accepts (LONGEST_WORD d) c then \<exists>d'. exec c d = Inr d' \<and> step d c d'
          else exec c d = Inl OutOfBounds)"
proof (cases "accepts (LONGEST_WORD d) c")
  case True
  with step_iff_accepts [OF assms, of c] show ?thesis by (auto simp: step_iff_exec)
next
  case False
  with step_iff_accepts [OF assms, of c] obtain e where e: "exec c d = Inl e"
    by (cases "exec c d") (auto simp: step_iff_exec)
  have "e = OutOfBounds"
  proof (cases c)
    case (Load f)
    with e show ?thesis by (cases f) (auto simp: loadDictionary_Some dest: load_loop_fault)
  next
    case (Find p)
    with False have "LONGEST_WORD d \<le> length p" by simp
    with e Find assms show ?thesis
      by (cases "map_of (cacheSearchMap d) p")
        (auto simp: findPossible_out_of_bounds dest: cached_short)
  qed (use False in simp_all)
  with e False show ?thesis by simp
qed

theorem calls_return_iff_witness:
  "(\<exists>d'. exec (Find [202, 0, 210]) ex_dict = Inr d')
   \<and> exec (Find (replicate 8 0)) ex_dict = Inl OutOfBounds
   \<and> exec (Load (Some [(replicate 8 192, [])])) ex_dict = Inl OutOfBounds"
  using calls_return_iff [OF ex_dict_inv, of "Find [202, 0, 210]"]
    calls_return_iff [OF ex_dict_inv, of "Find (replicate 8 0)"]
    calls_return_iff [OF ex_dict_inv, of "Load (Some [(replicate 8 192, [])])"]
  by (auto simp: ex_dict_simps clean_key_fixed is_upper_def list_all_iff)

text \<open>
  C20 (type). Whatever calls with fair inputs a client has made on a fresh object with \<open>n\<close>
  tables, the view that a query returns is well typed: it has as many identifiers as it
  says, every one of them resolves through the function the view carries to a word of
  the table, and the words it resolves to are exactly the words of the table that match
  the pattern, all of them in capital letters, of the length of the pattern, and shorter
  than \<open>n\<close>.
\<close>

theorem views_well_typed:
  assumes "run cs (new_dictionary n) = Inr d" and "list_all fair cs"
    and "findPossible p d = Inr (v, d')"
  shows "\<exists>ws. view_words d' v = Inr ws \<and> length ws = view_size v
     \<and> set ws = {w \<in> set (allWords d'). matches 0 p w}
     \<and> (\<forall>w\<in>set ws. list_all is_upper w \<and> length w = length p \<and> length w < n)"
proof -
  from dict_inv_run [OF assms(1,2) dict_inv_new]
  have inv: "dict_inv d" and n: "LONGEST_WORD d = n"
    by (simp_all add: new_dictionary_def LONGEST_WORD_def)
  from assms(3) inv obtain ids where q: "query p d = Inr (ids, d')"
    and v: "view_size v = length ids"
    and w: "view_words d' v = Inr (map (\<lambda>c. allWords d' ! unat c) ids)"
    by (rule findPossible_words)
  note Q = query_set [OF inv findPossible_query(1) [OF assms(3) inv] q]
  let ?ws = "map (\<lambda>c. allWords d' ! unat c) ids"
  have "set ?ws = (\<lambda>i. allWords d' ! i) ` unat ` set ids" by (simp add: image_image)
  also have "\<dots> = {w \<in> set (allWords d'). matches 0 p w}"
    unfolding Q(1) by (auto simp: matching_eq Q(3) in_set_conv_nth)
  finally have s: "set ?ws = {w \<in> set (allWords d'). matches 0 p w}" .
  have "list_all is_upper w \<and> length w = length p \<and> length w < n" if "w \<in> set ?ws" for w
  proof -
    from that s obtain i where "i < length (allWords d')" "w = allWords d' ! i" "matches 0 p w"
      by (auto simp: in_set_conv_nth)
    with words_ok_nth(1,2) [OF dict_invD(1) [OF Q(2)], of i] Q(4) n show ?thesis
      by (simp add: matches_def list_all2_lengthD)
  qed
  then have t: "\<forall>w\<in>set ?ws. list_all is_upper w \<and> length w = length p \<and> length w < n"
    by blast
  from v have "length ?ws = view_size v" by simp
  with w s t show ?thesis by blast
qed

theorem views_well_typed_witness:
  "\<exists>v d' ws. findPossible [202, 0, 210] ex_dict = Inr (v, d') \<and> view_words d' v = Inr ws
     \<and> set ws = {[202, 206, 210]}"
proof -
  obtain ids d' where "query [202, 0, 210] ex_dict = Inr (ids, d')" by (rule ex_query)
  then obtain v where f: "findPossible [202, 0, 210] ex_dict = Inr (v, d')"
    by (auto simp: query_def split: sum.splits)
  have r: "run [Load (Some ex_records)] (new_dictionary 8) = Inr ex_dict"
    by (simp add: ex_load)
  have "list_all fair [Load (Some ex_records)]" by (simp add: ex_records_def)
  from views_well_typed [OF r this f] obtain ws where
    w: "view_words d' v = Inr ws" "set ws = {w \<in> set (allWords d'). matches 0 [202, 0, 210] w}"
    by blast
  have "{w \<in> set (allWords d'). matches 0 [202, 0, 210] w} = {[202, 206, 210]}"
    by (auto simp: dict_inv_findPossible(3) [OF f ex_dict_inv] ex_dict_simps matches_def)
  with f w show ?thesis by auto
qed

text \<open>
  C24 (safety). A view is valid until the next reset or load, and no longer. Let
  \<^verbatim>\<open>findPossible\<close> return a view on a well-formed object, and let queries and shuffles
  with fair inputs follow that return (\<open>keeps\<close>): the view still resolves every one of
  its identifiers, to the same words with the same multiplicities, in an order that only
  \<^verbatim>\<open>shuffle\<close> changes. A \<^verbatim>\<open>reset\<close> after that leaves the vector of the view allocated but
  clears \<^verbatim>\<open>_allWords\<close>, through which the view resolves: reading a view that is not empty
  is then an access beyond the table of words.
\<close>

theorem view_valid_until_reset:
  assumes "findPossible p d = Inr (v, d1)" and "dict_inv d"
    and "run cs d1 = Inr d2" and "list_all fair cs" and "list_all keeps cs"
  shows "\<exists>ws ws'. view_words d1 v = Inr ws \<and> view_words d2 v = Inr ws' \<and> mset ws' = mset ws
     \<and> view_words (reset d2) v = (if ws = [] then Inr [] else Inl OutOfBounds)"
proof -
  from assms(1,2) obtain ids where q: "query p d = Inr (ids, d1)"
    and v: "heap d1 (view_begin v) = Some ids" "view_size v = length ids"
      "view_get v = getFromIndex"
    and r: "\<forall>c\<in>set ids. unat c < length (allWords d1)"
    and 1: "view_words d1 v = Inr (map (\<lambda>c. allWords d1 ! unat c) ids)"
    by (rule findPossible_words)
  note Q = query_set [OF assms(2) findPossible_query(1) [OF assms(1,2)] q]
  from heap_run [OF assms(3,4) Q(2) v(1)] obtain ids' where
    ids': "heap d2 (view_begin v) = Some ids'" "mset ids' = mset ids" by blast
  from ids'(2) have l: "length ids' = length ids" and s: "set ids' = set ids"
    by (auto dest: mset_eq_length mset_eq_setD)
  from allWords_run [OF assms(3,4,5) Q(2)] have a: "allWords d2 = allWords d1" .
  let ?f = "\<lambda>c. allWords d1 ! unat c"
  from ids'(1) v(2,3) l r s a have 2: "view_words d2 v = Inr (map ?f ids')"
    by (simp add: view_words_eq)
  from ids'(1) v(2,3) l have 3: "view_words (reset d2) v =
      (if ids' = [] then Inr [] else Inl OutOfBounds)"
    by (cases ids') (auto simp: view_words_eq reset_def)
  from l have "ids' = [] \<longleftrightarrow> map ?f ids = []" by auto
  moreover from ids'(2) have "mset (map ?f ids') = mset (map ?f ids)" by (metis mset_map)
  ultimately show ?thesis using 1 2 3 by simp
qed

theorem view_valid_until_reset_witness:
  "\<exists>v d1 d2 ws ws'. findPossible [202, 0, 210] ex_dict = Inr (v, d1)
     \<and> run [Find [202, 0, 0]] d1 = Inr d2
     \<and> view_words d1 v = Inr ws \<and> view_words d2 v = Inr ws' \<and> mset ws' = mset ws
     \<and> view_words (reset d2) v = Inl OutOfBounds"
proof -
  obtain ids0 d1 where "query [202, 0, 210] ex_dict = Inr (ids0, d1)" by (rule ex_query)
  then obtain v where f: "findPossible [202, 0, 210] ex_dict = Inr (v, d1)"
    by (auto simp: query_def split: sum.splits)
  from f ex_dict_inv obtain ids where q: "query [202, 0, 210] ex_dict = Inr (ids, d1)"
    and w: "view_words d1 v = Inr (map (\<lambda>c. allWords d1 ! unat c) ids)"
    by (rule findPossible_words)
  note Q = query_set [OF ex_dict_inv _ q]
  have "0 \<in> matching ex_dict [202, 0, 210]"
    by (simp add: matching_eq ex_dict_simps matches_def)
  with Q(1) have n: "ids \<noteq> []" by (auto simp: ex_dict_simps)
  obtain d2 where "step d1 (Find [202, 0, 0]) d2"
    by (rule find_returns [OF Q(2), of "[202, 0, 0]"]) (simp_all add: Q(4) ex_dict_simps)
  then have r: "run [Find [202, 0, 0]] d1 = Inr d2" by (simp add: step_iff_exec)
  from view_valid_until_reset [OF f ex_dict_inv r] w n f r show ?thesis by auto
qed

text \<open>
  C22 (safety). After any sequence of queries and shuffles on a well-formed object whose
  cache refers to every live vector, the destructor returns without deleting anything
  twice and leaves no vector allocated.
\<close>

theorem destructor_frees_all:
  assumes "dict_inv d" and "owned d" and "run cs d = Inr d'"
    and "list_all fair cs" and "list_all keeps cs"
  shows "destroy d' = Inr Map.empty"
proof -
  from dict_inv_run [OF assms(3,4,1)] have "cache_ok d'" by (simp add: dict_inv_def)
  moreover from assms(3,5,2) have "owned d'" by (rule owned_run)
  ultimately show ?thesis by (rule destroy_owned)
qed

theorem destructor_frees_all_witness:
  "\<exists>d'. run [Find [202, 0, 210], Find [202, 0, 0]] ex_dict = Inr d' \<and> destroy d' = Inr Map.empty"
proof -
  let ?cs = "[Find [202, 0, 210], Find [202, 0, 0]]"
  have "\<exists>d'. run ?cs ex_dict = Inr d'"
  proof -
    obtain d1 where d1: "step ex_dict (Find [202, 0, 210]) d1" "dict_inv d1"
      "LONGEST_WORD d1 = LONGEST_WORD ex_dict"
      by (rule find_returns [OF ex_dict_inv, of "[202, 0, 210]"]) (simp_all add: ex_dict_simps)
    obtain d2 where "step d1 (Find [202, 0, 0]) d2"
      by (rule find_returns [OF d1(2), of "[202, 0, 0]"]) (simp_all add: d1(3) ex_dict_simps)
    with d1(1) show ?thesis by (simp add: step_iff_exec split: sum.splits)
  qed
  then obtain d' where r: "run ?cs ex_dict = Inr d'" by blast
  have "owned ex_dict" by (simp add: owned_def ex_dict_simps)
  from destructor_frees_all [OF ex_dict_inv this r] r show ?thesis by auto
qed

text \<open>
  C23 (safety). \<^verbatim>\<open>reset\<close>, and with it every \<^verbatim>\<open>loadDictionary\<close>, clears the cache without
  deleting the vectors it points to: after a reset of an object with a non-empty cache
  the destructor deletes nothing, and every vector that was live stays allocated.
\<close>

theorem reset_leaks:
  assumes "dict_inv d" and "cacheSearchMap d \<noteq> []" and "loadDictionary f d = Inr d'"
  shows "destroy (reset d) = Inr (heap d) \<and> destroy d' = Inr (heap d) \<and> heap d \<noteq> Map.empty"
proof -
  from assms(2) obtain p a where "(p, a) \<in> set (cacheSearchMap d)"
    by (cases "cacheSearchMap d") auto
  with assms(1) have "heap d a \<noteq> None" by (auto simp: dict_inv_def cache_ok_def)
  then have "heap d \<noteq> Map.empty" by auto
  moreover have "destroy (reset d) = Inr (heap d)" by (simp add: destroy_def)
  moreover have "cacheSearchMap d' = []" "heap d' = heap d"
    using assms(3) by (cases f; auto dest: loadDictionary_effect(3,4))+
  then have "destroy d' = Inr (heap d)" by (simp add: destroy_def)
  ultimately show ?thesis by simp
qed

theorem reset_leaks_witness:
  "\<exists>d1 d2 h. run [Find [202, 0, 210]] ex_dict = Inr d1 \<and> loadDictionary None d1 = Inr d2
     \<and> destroy d2 = Inr h \<and> h \<noteq> Map.empty"
proof -
  obtain d1 where d1: "step ex_dict (Find [202, 0, 210]) d1" and inv: "dict_inv d1"
    by (rule find_returns [OF ex_dict_inv, of "[202, 0, 210]"]) (simp_all add: ex_dict_simps)
  from d1 obtain v where "findPossible [202, 0, 210] ex_dict = Inr (v, d1)"
    by (rule step_FindE)
  then have "cacheSearchMap d1 \<noteq> []"
    by (auto simp: findPossible_def Let_def cache_store_eq ex_dict_simps
        split: if_splits sum.splits)
  from reset_leaks [OF inv this, of None "reset d1"] d1 show ?thesis
    by (auto simp: step_iff_exec)
qed

section \<open>The tail of the constructors\<close>

text \<open>
  An object constructed from a readable file of at most 65536 records, whatever the
  shuffle did, answers a pattern shorter than \<^verbatim>\<open>LONGEST_WORD\<close> with exactly the positions
  of the records whose canonical key has the pattern's length and agrees with it at every
  position that is not the unknown byte.
\<close>

lemma construct_answers:
  assumes "construct n (Some records) rs rc = Inr d" and "length records \<le> 65536"
    and "permuting (\<lambda>(len, k). rs len k)" and "permuting rc" and "length p < n"
  shows "\<exists>ids d'. query p d = Inr (ids, d')
    \<and> unat ` set ids = {i. i < length records \<and> matches 0 p (clean_key (fst (records ! i)))}"
proof -
  note C = construct_inv [OF assms(1)]
  from assms(2-4) have inv: "dict_inv d" and n: "LONGEST_WORD d = n"
    and w: "allWords d = map (clean_key \<circ> fst) records"
    using C(1,2,4) by simp_all
  from inv assms(5) n obtain ids d' where q: "query p d = Inr (ids, d')"
    by (metis query_result)
  from query_set(1) [OF inv _ q] assms(5) n have "unat ` set ids = matching d p" by simp
  with q w show ?thesis by (auto simp: matching_eq)
qed

text \<open>An object constructed from a file that cannot be opened has no words.\<close>

lemma construct_unreadable:
  assumes "permuting (\<lambda>(len, k). rs len k)" and "permuting rc" and "length p < n"
  shows "\<exists>d d'. construct n None rs rc = Inr d \<and> allWords d = [] \<and> query p d = Inr ([], d')"
proof -
  have "\<exists>d. construct n None rs rc = Inr d"
    using shuffle_no_fault [OF dict_invD(4) [OF dict_inv_reset], of "new_dictionary n" rs rc]
    by (simp add: construct_def heap_ok_def new_dictionary_def)
  then obtain d where c: "construct n None rs rc = Inr d" ..
  note C = construct_inv [OF c]
  from assms(1,2) have inv: "dict_inv d" and n: "LONGEST_WORD d = n" and w: "allWords d = []"
    using C(1,2,4) by simp_all
  from inv assms(3) n obtain ids d' where q: "query p d = Inr (ids, d')"
    by (metis query_result)
  from query_set(1) [OF inv _ q] assms(3) n w have "set ids = {}" by (simp add: matching_eq)
  with c w q show ?thesis by auto
qed

end
