(* ===== verification/Edit_Distance.thy ===== *)
theory Edit_Distance
  imports XW_Prelude
begin

text \<open>
  \<^verbatim>\<open>Dictionary::levenstein\<close> (lines 78-96 of \<^verbatim>\<open>src/dictionary.cpp\<close>): a table of
  \<open>(length a + 1) \<times> (length b + 1)\<close> integers, filled row by row by two nested loops,
  of which the last cell is returned.
\<close>

section \<open>The table and the loops\<close>

type_synonym table2 = "int list list"

definition new_table :: "nat \<Rightarrow> nat \<Rightarrow> table2" where
  "new_table rows cols = replicate rows (replicate cols 0)"

definition at :: "table2 \<Rightarrow> nat \<Rightarrow> nat \<Rightarrow> int" where
  "at dp i j = dp ! i ! j"

definition put :: "table2 \<Rightarrow> nat \<Rightarrow> nat \<Rightarrow> int \<Rightarrow> table2" where
  "put dp i j v = dp[i := (dp ! i)[j := v]]"

text \<open>The body of the inner loop, for the cell \<open>(i, j)\<close>.\<close>

definition cell_step :: "str \<Rightarrow> str \<Rightarrow> nat \<Rightarrow> nat \<Rightarrow> table2 \<Rightarrow> table2" where
  "cell_step a b i j dp =
     (if min i j = 0 then put dp i j 0
      else let dp = put dp i j (min (at dp (i - 1) j + 1) (at dp i (j - 1) + 1))
           in put dp i j (min (at dp i j)
                (at dp (i - 1) (j - 1) + (if a ! (i - 1) \<noteq> b ! (j - 1) then 1 else 0))))"

definition row_loop :: "str \<Rightarrow> str \<Rightarrow> nat \<Rightarrow> table2 \<Rightarrow> table2" where
  "row_loop a b i dp = fold (cell_step a b i) [0..<Suc (length b)] dp"

definition levenstein_table :: "str \<Rightarrow> str \<Rightarrow> table2" where
  "levenstein_table a b =
     fold (row_loop a b) [0..<Suc (length a)] (new_table (Suc (length a)) (Suc (length b)))"

definition levenstein :: "str \<Rightarrow> str \<Rightarrow> int" where
  "levenstein a b = at (levenstein_table a b) (length a) (length b)"


section \<open>The recurrence\<close>

text \<open>What the loops compute, as a recursive function of the two prefix lengths.\<close>

fun lev0 :: "str \<Rightarrow> str \<Rightarrow> nat \<Rightarrow> nat \<Rightarrow> int" where
  "lev0 a b 0 j = 0"
| "lev0 a b (Suc i) 0 = 0"
| "lev0 a b (Suc i) (Suc j) =
     min (min (lev0 a b i (Suc j) + 1) (lev0 a b (Suc i) j + 1))
         (lev0 a b i j + (if a ! i \<noteq> b ! j then 1 else 0))"

text \<open>The edit distance of Levenshtein on prefixes: the first row and column count.\<close>

fun lev1 :: "str \<Rightarrow> str \<Rightarrow> nat \<Rightarrow> nat \<Rightarrow> int" where
  "lev1 a b 0 j = int j"
| "lev1 a b (Suc i) 0 = int (Suc i)"
| "lev1 a b (Suc i) (Suc j) =
     min (min (lev1 a b i (Suc j) + 1) (lev1 a b (Suc i) j + 1))
         (lev1 a b i j + (if a ! i \<noteq> b ! j then 1 else 0))"

definition shape :: "nat \<Rightarrow> nat \<Rightarrow> table2 \<Rightarrow> bool" where
  "shape n m dp \<longleftrightarrow> length dp = n \<and> list_all (\<lambda>r. length r = m) dp"

definition cell_val :: "str \<Rightarrow> str \<Rightarrow> table2 \<Rightarrow> nat \<Rightarrow> nat \<Rightarrow> int" where
  "cell_val a b dp i j =
     (if min i j = 0 then 0
      else min (min (at dp (i - 1) j + 1) (at dp i (j - 1) + 1))
               (at dp (i - 1) (j - 1) + (if a ! (i - 1) \<noteq> b ! (j - 1) then 1 else 0)))"

section \<open>Reading and writing cells\<close>

lemma shape_new_table [simp]: "shape n m (new_table n m)"
  by (simp add: shape_def new_table_def list_all_iff)

lemma shape_row: "shape n m dp \<Longrightarrow> i < n \<Longrightarrow> length (dp ! i) = m"
  by (simp add: shape_def list_all_length)

lemma shape_put [simp]: "shape n m dp \<Longrightarrow> shape n m (put dp i j v)"
  by (cases "i < length dp") (auto simp: shape_def put_def list_all_length nth_list_update)

lemma at_put:
  assumes "shape n m dp" and "i < n" and "j < m"
  shows "at (put dp i j v) i' j' = (if i' = i \<and> j' = j then v else at dp i' j')"
  using assms shape_row [OF assms(1,2)]
  by (auto simp: at_def put_def shape_def nth_list_update)

lemma put_put: "put (put dp i j x) i j y = put dp i j y"
  by (cases "i < length dp") (simp_all add: put_def list_update_beyond)

lemma min_eq_0_iff: "min i j = 0 \<longleftrightarrow> i = 0 \<or> j = 0" for i j :: nat
  by (auto simp: min_def)

lemma cell_step_eq:
  assumes "shape n m dp" and "i < n" and "j < m"
  shows "cell_step a b i j dp = put dp i j (cell_val a b dp i j)"
proof (cases "i = 0 \<or> j = 0")
  case True
  then show ?thesis by (auto simp: cell_step_def cell_val_def)
next
  case False
  then have "i - 1 \<noteq> i" by arith
  with False assms show ?thesis
    by (simp add: cell_step_def cell_val_def Let_def at_put put_put min_eq_0_iff)
qed


section \<open>The loops fill the table with the recurrence\<close>

lemma cell_val_lev0:
  assumes "\<forall>i'<i. \<forall>j'<m. at dp i' j' = lev0 a b i' j'" and "\<forall>j'<j. at dp i j' = lev0 a b i j'"
    and "j < m"
  shows "cell_val a b dp i j = lev0 a b i j"
proof (cases i)
  case 0
  then show ?thesis by (simp add: cell_val_def)
next
  case i: (Suc i0)
  show ?thesis
  proof (cases j)
    case 0
    with i show ?thesis by (simp add: cell_val_def)
  next
    case (Suc j0)
    with i assms show ?thesis by (simp add: cell_val_def)
  qed
qed

text \<open>Row \<open>i\<close> after \<open>k\<close> rounds of the inner loop.\<close>

definition row_done :: "str \<Rightarrow> str \<Rightarrow> nat \<Rightarrow> nat \<Rightarrow> table2 \<Rightarrow> bool" where
  "row_done a b i k dp \<longleftrightarrow>
     shape (Suc (length a)) (Suc (length b)) dp \<and>
     (\<forall>i'<i. \<forall>j'<Suc (length b). at dp i' j' = lev0 a b i' j') \<and>
     (\<forall>j'<k. at dp i j' = lev0 a b i j')"

lemma row_done_step:
  assumes "row_done a b i k dp" and "i \<le> length a" and "k \<le> length b"
  shows "row_done a b i (Suc k) (cell_step a b i k dp)"
proof -
  from assms(1) have s: "shape (Suc (length a)) (Suc (length b)) dp"
    by (simp add: row_done_def)
  have v: "cell_val a b dp i k = lev0 a b i k"
    using assms(1,3) by (intro cell_val_lev0 [where m = "Suc (length b)"]) (simp_all add: row_done_def)
  from assms(2,3) have eq: "cell_step a b i k dp = put dp i k (lev0 a b i k)"
    using cell_step_eq [OF s, of i k a b] v by simp
  have ap: "at (put dp i k v) i' j' = (if i' = i \<and> j' = k then v else at dp i' j')" for v i' j'
    using assms(2,3) by (intro at_put [OF s]) simp_all
  have "\<forall>j'<Suc k. at (put dp i k (lev0 a b i k)) i j' = lev0 a b i j'"
    using assms(1) by (simp add: ap row_done_def)
  moreover have "\<forall>i'<i. \<forall>j'<Suc (length b). at (put dp i k (lev0 a b i k)) i' j' = lev0 a b i' j'"
    using assms(1) by (simp add: ap row_done_def)
  ultimately show ?thesis unfolding eq row_done_def using s by simp
qed

lemma row_loop_done:
  assumes "row_done a b i 0 dp" and "i \<le> length a"
  shows "row_done a b (Suc i) 0 (row_loop a b i dp)"
proof -
  have "row_done a b i (Suc (length b)) (row_loop a b i dp)"
    unfolding row_loop_def using assms
    by (intro fold_upt_invariant [where P = "row_done a b i"]) (auto intro: row_done_step)
  then show ?thesis by (auto simp: row_done_def less_Suc_eq)
qed

lemma table_done:
  "row_done a b (Suc (length a)) 0 (levenstein_table a b)"
  unfolding levenstein_table_def
  by (intro fold_upt_invariant [where P = "\<lambda>i. row_done a b i 0"] row_loop_done)
    (simp_all add: row_done_def)

lemma at_levenstein_table:
  "i \<le> length a \<Longrightarrow> j \<le> length b \<Longrightarrow> at (levenstein_table a b) i j = lev0 a b i j"
  using table_done [of a b] by (simp add: row_done_def)


section \<open>Properties of the recurrence\<close>

lemma lev0_bounds: "0 \<le> lev0 a b i j \<and> lev0 a b i j \<le> int (min i j)"
  by (induction a b i j rule: lev0.induct) auto

lemma lev0_le_lev1: "lev0 a b i j \<le> lev1 a b i j"
  by (induction a b i j rule: lev0.induct) (auto simp: min_le_iff_disj)

lemma lev1_lower: "\<bar>int i - int j\<bar> \<le> lev1 a b i j"
  by (induction a b i j rule: lev1.induct) auto

lemma lev0_diag:
  assumes "\<forall>i'<i. a ! (k + i') = b ! i'"
  shows "lev0 a b (k + i) i = 0" and "lev0 b a i (k + i) = 0"
  using assms
proof (induction i)
  case 0
  { case 1 show ?case by (cases k) simp_all }
  { case 2 show ?case by simp }
next
  case (Suc i)
  { case 1
    with Suc.IH(1) have "lev0 a b (k + i) i = 0" "a ! (k + i) = b ! i" by simp_all
    with lev0_bounds [of a b "k + i" "Suc i"] lev0_bounds [of a b "Suc (k + i)" i]
    show ?case by simp }
  { case 2
    with Suc.IH(2) have "lev0 b a i (k + i) = 0" "a ! (k + i) = b ! i" by simp_all
    with lev0_bounds [of b a i "Suc (k + i)"] lev0_bounds [of b a "Suc i" "k + i"]
    show ?case by simp }
qed

lemma lev1_diag:
  assumes "\<forall>i'<i. a ! (k + i') = b ! i'"
  shows "lev1 a b (k + i) i = int k"
  using assms
proof (induction i)
  case 0
  show ?case by (cases k) simp_all
next
  case (Suc i)
  then have "lev1 a b (k + i) i = int k" "a ! (k + i) = b ! i" by simp_all
  with lev1_lower [of "k + i" "Suc i" a b] lev1_lower [of "Suc (k + i)" i a b]
  show ?case by simp
qed

text \<open>
  C8 (equivalence). The two nested loops of \<^verbatim>\<open>levenstein\<close> over the table compute the
  recurrence \<open>lev0\<close> at the lengths of the two strings.
\<close>

theorem levenstein_is_recurrence: "levenstein a b = lev0 a b (length a) (length b)"
  by (simp add: levenstein_def at_levenstein_table)

text \<open>
  The result is between 0 and the length of the shorter string, so it fits
  the \<^verbatim>\<open>int\<close> of the code, and it never exceeds the distance of Levenshtein.
\<close>

theorem levenstein_bounds:
  "0 \<le> levenstein a b \<and> levenstein a b \<le> int (min (length a) (length b))
   \<and> levenstein a b \<le> lev1 a b (length a) (length b)"
  using lev0_bounds [of a b "length a" "length b"]
  by (simp add: levenstein_def at_levenstein_table lev0_le_lev1)

text \<open>
  C29 (functional). The first row and the first column of the table are 0 and not the
  index, so a prefix of either string is dropped for free: the result for \<open>c @ a\<close>
  and \<open>a\<close> is 0, where the distance of Levenshtein is the length of \<open>c\<close>.
\<close>

theorem levenstein_drops_prefix:
  "levenstein (c @ a) a = 0 \<and> levenstein a (c @ a) = 0
   \<and> lev1 (c @ a) a (length (c @ a)) (length a) = int (length c)"
proof -
  have d: "\<forall>i'<length a. (c @ a) ! (length c + i') = a ! i'" by simp
  from lev0_diag [OF d] lev1_diag [OF d] show ?thesis
    by (simp add: levenstein_def at_levenstein_table)
qed

text \<open>The example of the specification, KITTEN and SITTING, evaluated on the loops.\<close>

lemma levenstein_kitten_sitting:
  "levenstein [75, 73, 84, 84, 69, 78] [83, 73, 84, 84, 73, 78, 71] = 3"
  by code_simp

end
