(* ===== verification/Environment.thy ===== *)
theory Environment
  imports XW_Prelude "HOL-Library.Sublist"
begin

text \<open>
  What the program runs in: the console and the file system. The console is a record of
  the replies still to be read from \<^verbatim>\<open>std::cin\<close>, one per \<^verbatim>\<open>cin >> s\<close>, and of the lines
  written to \<^verbatim>\<open>std::cout\<close> so far. The file system is a function from paths to the bytes of
  the files that can be opened for reading.
\<close>

section \<open>Console\<close>

record console =
  cin :: "string list"
  cout :: "string list"

text \<open>\<^verbatim>\<open>cin >> s\<close>: at the end of the input the string stays as it is.\<close>

definition read_token :: "console \<Rightarrow> string \<Rightarrow> string \<times> console" where
  "read_token c s = (case cin c of [] \<Rightarrow> (s, c) | t # ts \<Rightarrow> (t, c\<lparr>cin := ts\<rparr>))"

text \<open>\<^verbatim>\<open>cout << ... << endl\<close>\<close>

definition print_line :: "string \<Rightarrow> console \<Rightarrow> console" where
  "print_line l c = c\<lparr>cout := cout c @ [l]\<rparr>"

text \<open>\<^verbatim>\<open>cout << n\<close> for an unsigned integer: its decimal digits.\<close>

fun show_nat :: "nat \<Rightarrow> string" where
  "show_nat n = (if n < 10 then [char_of (48 + n)] else show_nat (n div 10) @ [char_of (48 + n mod 10)])"

declare show_nat.simps [simp del]

text \<open>
  What a function that returns may have done to the console: it has taken replies from
  the front of the input and added lines at the end of the output.
\<close>

definition advanced :: "console \<Rightarrow> console \<Rightarrow> bool" where
  "advanced c c' \<longleftrightarrow> suffix (cin c') (cin c) \<and> prefix (cout c) (cout c')"

section \<open>File system\<close>

type_synonym files = "string \<Rightarrow> byte list option"

section \<open>Lemmas\<close>

lemma read_token_Nil [simp]: "cin c = [] \<Longrightarrow> read_token c s = (s, c)"
  by (simp add: read_token_def)

lemma read_token_Cons [simp]: "cin c = t # ts \<Longrightarrow> read_token c s = (t, c\<lparr>cin := ts\<rparr>)"
  by (simp add: read_token_def)

lemma print_line_simps [simp]:
  "cin (print_line l c) = cin c" "cout (print_line l c) = cout c @ [l]"
  by (simp_all add: print_line_def)

lemma console_eq [simp]: "c\<lparr>cin := i, cout := out\<rparr> = \<lparr>cin = i, cout = out\<rparr>"
  "c\<lparr>cout := out, cin := i\<rparr> = \<lparr>cin = i, cout = out\<rparr>"
  by (cases c, simp)+

lemma length_show_nat_pos [simp]: "show_nat n \<noteq> []"
  by (subst show_nat.simps) simp

lemma show_nat_digit: "n < 10 \<Longrightarrow> show_nat n = [char_of (48 + n)]"
  by (subst show_nat.simps) simp

lemma advanced_refl [simp]: "advanced c c"
  by (simp add: advanced_def)

lemma advanced_trans [trans]: "advanced c c' \<Longrightarrow> advanced c' c'' \<Longrightarrow> advanced c c''"
  by (auto simp: advanced_def intro: suffix_order.trans prefix_order.trans)

lemma advanced_print [simp]: "advanced c (c\<lparr>cout := cout c @ ls\<rparr>)"
  by (simp add: advanced_def)

lemma advanced_read: "advanced c (snd (read_token (print_line l c) s))"
  by (cases "cin c") (auto simp: advanced_def read_token_def print_line_def suffix_Cons)

end
