(* ===== verification/Board_Slots.thy ===== *)
theory Board_Slots
  imports XW_Prelude
begin

text \<open>
  \<^verbatim>\<open>crossword::loadWords\<close> (lines 3-29 of \<^verbatim>\<open>src/crossword.cpp\<close>): the scan of every row and
  of every column of the board for maximal runs of at least two cells that are not
  boxes. The board is a list of rows of bytes; a position (a slot) is its orientation
  and its cells, each a reference to a cell of the board, written as the pair of its
  row and column, with the row-major number of the cell. A cell outside the board is
  a fault. The test \<^verbatim>\<open>isBox\<close> on a byte and the comparator of the final \<^verbatim>\<open>sort\<close> are
  declared in the header, which is not among the sources: they are parameters.
\<close>

section \<open>Data\<close>

datatype grid_fault = CellOutOfBounds | ReadPastEnd | SubstrOutOfRange

type_synonym board = "byte list list"
type_synonym cell_ref = "nat \<times> nat"

record position =
  hor :: bool
  letters :: "(cell_ref \<times> nat) list"

definition isBox_at :: "(byte \<Rightarrow> bool) \<Rightarrow> board \<Rightarrow> nat \<Rightarrow> nat \<Rightarrow> grid_fault + bool" where
  "isBox_at isBox board i j =
     (if i < length board \<and> j < length (board ! i) then Inr (isBox (board ! i ! j))
      else Inl CellOutOfBounds)"

section \<open>The scan of one line\<close>

text \<open>
  The inner loop \<^verbatim>\<open>for (; j < M && !isBox(i, j); ++j);\<close> on a row or a column, whose test
  is \<open>box\<close>.
\<close>

function run_end :: "(nat \<Rightarrow> grid_fault + bool) \<Rightarrow> nat \<Rightarrow> nat \<Rightarrow> grid_fault + nat" where
  "run_end box M j =
     (if j < M
      then (case box j of
              Inl e \<Rightarrow> Inl e
            | Inr b \<Rightarrow> if \<not> b then run_end box M (Suc j) else Inr j)
      else Inr j)"
  by pat_completeness auto
termination
  by (relation "measure (\<lambda>(box, M, j). M - j)") auto

declare run_end.simps [simp del]

lemma run_end_ge: "run_end box M j = Inr e \<Longrightarrow> j \<le> e"
proof (induction box M j rule: run_end.induct)
  case (1 box M j)
  then show ?case
    by (subst (asm) (2) run_end.simps) (auto split: if_splits sum.splits dest: Suc_leD)
qed

text \<open>
  The loop over a line, \<^verbatim>\<open>for (int j = 0; j < M; ++j)\<close>, whose body moves \<open>j\<close> to the end
  of the run that starts at \<open>j\<close>, and adds the position \<open>mk start j\<close> if the run has more than
  one cell.
\<close>

function scan ::
  "(nat \<Rightarrow> grid_fault + bool) \<Rightarrow> (nat \<Rightarrow> nat \<Rightarrow> position) \<Rightarrow> nat \<Rightarrow> nat \<Rightarrow> position list
     \<Rightarrow> grid_fault + position list" where
  "scan box mk M j areas =
     (if j < M
      then (case run_end box M j of
              Inl e \<Rightarrow> Inl e
            | Inr j' \<Rightarrow>
                if j' - j \<le> 1 then scan box mk M (Suc j') areas
                else scan box mk M (Suc j') (areas @ [mk j j']))
      else Inr areas)"
  by pat_completeness auto
termination
  by (relation "measure (\<lambda>(box, mk, M, j, areas). M - j)") (auto dest: run_end_ge)

declare scan.simps [simp del]

section \<open>Rows, columns, and the whole board\<close>

definition hor_position :: "nat \<Rightarrow> nat \<Rightarrow> nat \<Rightarrow> nat \<Rightarrow> position" where
  "hor_position M i start j =
     \<lparr>hor = True, letters = map (\<lambda>c. ((i, c), i * M + c)) [start..<j]\<rparr>"

definition ver_position :: "nat \<Rightarrow> nat \<Rightarrow> nat \<Rightarrow> nat \<Rightarrow> position" where
  "ver_position M j start i =
     \<lparr>hor = False, letters = map (\<lambda>r. ((r, j), r * M + j)) [start..<i]\<rparr>"

fun lines_loop ::
  "(nat \<Rightarrow> position list \<Rightarrow> grid_fault + position list) \<Rightarrow> nat list \<Rightarrow> position list
     \<Rightarrow> grid_fault + position list" where
  "lines_loop line [] areas = Inr areas"
| "lines_loop line (i # is) areas =
     (case line i areas of Inl e \<Rightarrow> Inl e | Inr areas' \<Rightarrow> lines_loop line is areas')"

definition loadWords ::
  "(byte \<Rightarrow> bool) \<Rightarrow> (position list \<Rightarrow> position list) \<Rightarrow> nat \<Rightarrow> nat \<Rightarrow> board
     \<Rightarrow> grid_fault + position list" where
  "loadWords isBox sort_areas N M board =
     (case lines_loop (\<lambda>i. scan (\<lambda>j. isBox_at isBox board i j) (hor_position M i) M 0)
             [0..<N] [] of
        Inl e \<Rightarrow> Inl e
      | Inr areas \<Rightarrow>
          (case lines_loop (\<lambda>j. scan (\<lambda>i. isBox_at isBox board i j) (ver_position M j) N 0)
                  [0..<M] areas of
             Inl e \<Rightarrow> Inl e
           | Inr areas \<Rightarrow> Inr (sort_areas areas)))"


section \<open>Maximal runs\<close>

text \<open>
  Reference notions. On a line of \<open>M\<close> cells with the box test \<open>b\<close>, the cells from \<open>s\<close>
  up to \<open>e\<close> form a slot when none of them is a box, the run cannot be extended at either
  end, and it has at least two cells.
\<close>

definition slot :: "(nat \<Rightarrow> bool) \<Rightarrow> nat \<Rightarrow> nat \<Rightarrow> nat \<Rightarrow> bool" where
  "slot b M s e \<longleftrightarrow>
     s + 2 \<le> e \<and> e \<le> M \<and> (\<forall>x. s \<le> x \<and> x < e \<longrightarrow> \<not> b x) \<and>
     (s = 0 \<or> b (s - 1)) \<and> (e = M \<or> b e)"

definition readable_line :: "(nat \<Rightarrow> grid_fault + bool) \<Rightarrow> (nat \<Rightarrow> bool) \<Rightarrow> nat \<Rightarrow> bool" where
  "readable_line box b M \<longleftrightarrow> (\<forall>x<M. box x = Inr (b x))"

lemma run_end_readable:
  assumes "readable_line box b M" and "j \<le> M"
  shows "\<exists>e. run_end box M j = Inr e \<and> j \<le> e \<and> e \<le> M \<and>
           (\<forall>x. j \<le> x \<and> x < e \<longrightarrow> \<not> b x) \<and> (e = M \<or> b e)"
  using assms
proof (induction box M j rule: run_end.induct)
  case (1 box M j)
  show ?case
  proof (cases "j < M \<and> \<not> b j")
    case True
    with 1(2) have bj: "box j = Inr (b j)" by (simp add: readable_line_def)
    from True have "\<exists>e. run_end box M (Suc j) = Inr e \<and> Suc j \<le> e \<and> e \<le> M \<and>
           (\<forall>x. Suc j \<le> x \<and> x < e \<longrightarrow> \<not> b x) \<and> (e = M \<or> b e)"
      by (intro 1(1) [OF _ bj _ 1(2)]) simp_all
    then obtain e where e: "run_end box M (Suc j) = Inr e" "Suc j \<le> e" "e \<le> M"
      "\<forall>x. Suc j \<le> x \<and> x < e \<longrightarrow> \<not> b x" "e = M \<or> b e"
      by blast
    from True 1(2) e(1) have "run_end box M j = Inr e"
      by (subst run_end.simps) (simp add: readable_line_def)
    moreover from True e(4) have "\<forall>x. j \<le> x \<and> x < e \<longrightarrow> \<not> b x"
      by (metis Suc_leI le_neq_implies_less)
    ultimately show ?thesis using e by auto
  next
    case False
    with 1(2,3) have "run_end box M j = Inr j"
      by (subst run_end.simps) (auto simp: readable_line_def)
    with False 1(3) show ?thesis by auto
  qed
qed

text \<open>Where the slots lie that start at or after the start \<open>j\<close> of a run that ends at \<open>e\<close>.\<close>

lemma slot_after_run:
  assumes "\<forall>x. j \<le> x \<and> x < e \<longrightarrow> \<not> b x" and "e = M \<or> b e" and "j \<le> e" and "e \<le> M"
    and "j = 0 \<or> b (j - 1)"
  shows "j \<le> s \<and> slot b M s e' \<longleftrightarrow> (s = j \<and> e' = e \<and> j + 2 \<le> e) \<or> (Suc e \<le> s \<and> slot b M s e')"
proof (intro iffI; elim conjE disjE)
  assume s: "j \<le> s" "slot b M s e'"
  show "(s = j \<and> e' = e \<and> j + 2 \<le> e) \<or> (Suc e \<le> s \<and> slot b M s e')"
  proof (cases "s = j")
    case True
    have "\<not> e' < e" using s(2) assms(1,4) True by (auto simp: slot_def)
    moreover have "\<not> e < e'" using s(2) assms(2,3) True by (auto simp: slot_def)
    ultimately show ?thesis using s(2) True by (auto simp: slot_def)
  next
    case False
    with s(1) have "j < s" by simp
    then have "j \<le> s - 1" "s \<noteq> 0" by simp_all
    with s(2) assms(1) have "\<not> s - 1 < e" by (auto simp: slot_def)
    with \<open>j < s\<close> s(2) show ?thesis by auto
  qed
next
  assume "s = j" "e' = e" "j + 2 \<le> e"
  with assms show "j \<le> s \<and> slot b M s e'" by (simp add: slot_def)
next
  assume "Suc e \<le> s" "slot b M s e'"
  with assms(3) show "j \<le> s \<and> slot b M s e'" by simp
qed


definition slots_from :: "(nat \<Rightarrow> bool) \<Rightarrow> nat \<Rightarrow> nat \<Rightarrow> (nat \<times> nat) set" where
  "slots_from b M j = {(s, e). j \<le> s \<and> slot b M s e}"

lemma slots_from_beyond: "M \<le> j \<Longrightarrow> slots_from b M j = {}"
  by (auto simp: slots_from_def slot_def)

lemma slots_from_run:
  assumes "\<forall>x. j \<le> x \<and> x < e \<longrightarrow> \<not> b x" and "e = M \<or> b e" and "j \<le> e" and "e \<le> M"
    and "j = 0 \<or> b (j - 1)"
  shows "slots_from b M j = (if j + 2 \<le> e then {(j, e)} else {}) \<union> slots_from b M (Suc e)"
  using slot_after_run [OF assms] by (auto simp: slots_from_def)

text \<open>
  The scan of a readable line from a position that is the start of the line or follows a
  box adds the slots from that position on, from left to right.
\<close>

lemma scan_slots:
  assumes "readable_line box b M" and "j = 0 \<or> M \<le> j \<or> b (j - 1)"
  shows "\<exists>xs. scan box mk M j areas = Inr (areas @ map (\<lambda>(s, e). mk s e) xs) \<and>
           set xs = slots_from b M j \<and> sorted_wrt (\<lambda>x y. snd x < fst y) xs"
  using assms
proof (induction box mk M j areas rule: scan.induct)
  case (1 box mk M j areas)
  show ?case
  proof (cases "j < M")
    case False
    then have "scan box mk M j areas = Inr (areas @ map (\<lambda>(s, e). mk s e) [])"
      by (subst scan.simps) simp
    with False show ?thesis by (auto simp: slots_from_beyond simp del: append_Nil2)
  next
    case True
    with run_end_readable [OF 1(3), of j] obtain e where e: "run_end box M j = Inr e" "j \<le> e"
      "e \<le> M" "\<forall>x. j \<le> x \<and> x < e \<longrightarrow> \<not> b x" "e = M \<or> b e"
      by auto
    from True 1(4) have "j = 0 \<or> b (j - 1)" by simp
    note split = slots_from_run [OF e(4,5,2,3) this]
    from e(5) have nxt: "Suc e = 0 \<or> M \<le> Suc e \<or> b (Suc e - 1)" by auto
    show ?thesis
    proof (cases "e - j \<le> 1")
      case short: True
      from 1(1) [OF True e(1) short 1(3) nxt] obtain xs where
        "scan box mk M (Suc e) areas = Inr (areas @ map (\<lambda>(s, e). mk s e) xs)"
        "set xs = slots_from b M (Suc e)" "sorted_wrt (\<lambda>x y. snd x < fst y) xs"
        by blast
      moreover from True e(1) short
      have "scan box mk M j areas = scan box mk M (Suc e) areas"
        by (subst scan.simps) simp
      ultimately show ?thesis using short split by auto
    next
      case long: False
      from 1(2) [OF True e(1) long 1(3) nxt] obtain xs where xs:
        "scan box mk M (Suc e) (areas @ [mk j e]) = Inr ((areas @ [mk j e]) @ map (\<lambda>(s, e). mk s e) xs)"
        "set xs = slots_from b M (Suc e)" "sorted_wrt (\<lambda>x y. snd x < fst y) xs"
        by blast
      from True e(1) long
      have "scan box mk M j areas = scan box mk M (Suc e) (areas @ [mk j e])"
        by (subst scan.simps) simp
      with xs(1) have "scan box mk M j areas = Inr (areas @ map (\<lambda>(s, e). mk s e) ((j, e) # xs))"
        by simp
      moreover from long split xs(2) have "set ((j, e) # xs) = slots_from b M j" by auto
      moreover from xs(2,3) have "sorted_wrt (\<lambda>x y. snd x < fst y) ((j, e) # xs)"
        by (auto simp: slots_from_def)
      ultimately show ?thesis by blast
    qed
  qed
qed


section \<open>All lines\<close>

lemma lines_loop_acc:
  assumes "\<And>i areas. i \<in> set is \<Longrightarrow> \<exists>ps. line i areas = Inr (areas @ ps) \<and> Q i ps"
  shows "\<exists>pss. lines_loop line is areas = Inr (areas @ concat pss) \<and> list_all2 Q is pss"
  using assms
proof (induction "is" arbitrary: areas)
  case Nil
  have "lines_loop line [] areas = Inr (areas @ concat []) \<and> list_all2 Q [] []" by simp
  then show ?case by blast
next
  case (Cons i "is")
  from Cons.prems [of i areas] obtain ps where ps: "line i areas = Inr (areas @ ps)" "Q i ps"
    by auto
  from Cons.IH [of "areas @ ps"] Cons.prems obtain pss where
    "lines_loop line is (areas @ ps) = Inr ((areas @ ps) @ concat pss)" "list_all2 Q is pss"
    by auto
  with ps have "lines_loop line (i # is) areas = Inr (areas @ concat (ps # pss)) \<and>
      list_all2 Q (i # is) (ps # pss)"
    by simp
  then show ?case by blast
qed

lemma lines_loop_append:
  "lines_loop line (is @ js) areas =
     (case lines_loop line is areas of Inl e \<Rightarrow> Inl e | Inr areas' \<Rightarrow> lines_loop line js areas')"
  by (induction "is" arbitrary: areas) (auto split: sum.splits)

text \<open>The board covers the \<open>N\<close> rows and \<open>M\<close> columns that are scanned.\<close>

definition grid_ok :: "nat \<Rightarrow> nat \<Rightarrow> board \<Rightarrow> bool" where
  "grid_ok N M board \<longleftrightarrow> N \<le> length board \<and> (\<forall>i<N. M \<le> length (board ! i))"

definition row_box :: "(byte \<Rightarrow> bool) \<Rightarrow> board \<Rightarrow> nat \<Rightarrow> nat \<Rightarrow> bool" where
  "row_box isBox board i j = isBox (board ! i ! j)"

definition col_box :: "(byte \<Rightarrow> bool) \<Rightarrow> board \<Rightarrow> nat \<Rightarrow> nat \<Rightarrow> bool" where
  "col_box isBox board j i = isBox (board ! i ! j)"

definition line_slots ::
  "(nat \<Rightarrow> nat \<Rightarrow> bool) \<Rightarrow> (nat \<Rightarrow> nat \<Rightarrow> nat \<Rightarrow> position) \<Rightarrow> nat \<Rightarrow> nat \<Rightarrow> position list \<Rightarrow> bool" where
  "line_slots b mk M i ps \<longleftrightarrow>
     (\<exists>xs. ps = map (\<lambda>(s, e). mk i s e) xs \<and> set xs = slots_from (b i) M 0 \<and>
           sorted_wrt (\<lambda>x y. snd x < fst y) xs)"

lemma readable_row:
  "grid_ok N M board \<Longrightarrow> i < N \<Longrightarrow>
     readable_line (\<lambda>j. isBox_at isBox board i j) (row_box isBox board i) M"
  by (fastforce simp: readable_line_def grid_ok_def isBox_at_def row_box_def)

lemma readable_col:
  "grid_ok N M board \<Longrightarrow> j < M \<Longrightarrow>
     readable_line (\<lambda>i. isBox_at isBox board i j) (col_box isBox board j) N"
  by (fastforce simp: readable_line_def grid_ok_def isBox_at_def col_box_def)

lemma scan_line:
  assumes "readable_line box (b i) M"
  shows "\<exists>ps. scan box (mk i) M 0 areas = Inr (areas @ ps) \<and> line_slots b mk M i ps"
  using scan_slots [OF assms, of 0 "mk i" areas] by (auto simp: line_slots_def)

lemma set_line_slots:
  assumes "list_all2 (line_slots b mk M) [0..<N] pss"
  shows "set (concat pss) = {mk i s e | i s e. i < N \<and> slot (b i) M s e}"
proof -
  have "set (concat pss) = (\<Union>k<N. set (pss ! k))"
    using assms by (auto simp: list_all2_conv_all_nth set_conv_nth [of pss])
  also have "\<dots> = (\<Union>k<N. {mk k s e | s e. slot (b k) M s e})"
  proof (intro SUP_cong refl)
    fix k assume "k \<in> {..<N}"
    with assms have "line_slots b mk M k (pss ! k)"
      by (simp add: list_all2_conv_all_nth)
    then show "set (pss ! k) = {mk k s e | s e. slot (b k) M s e}"
      by (force simp: line_slots_def slots_from_def)
  qed
  finally show ?thesis by auto
qed

lemma hor_position_inj:
  assumes "hor_position M i s e = hor_position M i' s' e'" and "s < e"
  shows "i = i' \<and> s = s' \<and> e = e'"
proof -
  let ?f = "\<lambda>i c. ((i, c), i * M + c)"
  from assms(1) have m: "map (?f i) [s..<e] = map (?f i') [s'..<e']"
    by (simp add: hor_position_def)
  then have l: "e - s = e' - s'" by (auto dest: map_eq_imp_length_eq)
  with assms(2) have "s' < e'" by simp
  with m assms(2) have "?f i s = ?f i' s'" by (simp add: upt_conv_Cons)
  with l assms(2) show ?thesis by auto
qed

lemma ver_position_inj:
  assumes "ver_position M j s e = ver_position M j' s' e'" and "s < e"
  shows "j = j' \<and> s = s' \<and> e = e'"
proof -
  let ?f = "\<lambda>j r. ((r, j), r * M + j)"
  from assms(1) have m: "map (?f j) [s..<e] = map (?f j') [s'..<e']"
    by (simp add: ver_position_def)
  then have l: "e - s = e' - s'" by (auto dest: map_eq_imp_length_eq)
  with assms(2) have "s' < e'" by simp
  with m assms(2) have "?f j s = ?f j' s'" by (simp add: upt_conv_Cons)
  with l assms(2) show ?thesis by auto
qed

text \<open>The positions of a line are pairwise different, and so are those of different lines.\<close>

lemma line_slots_distinct:
  assumes "line_slots b mk M i ps"
    and inj: "\<And>i s e i' s' e'. mk i s e = mk i' s' e' \<Longrightarrow> s < e \<Longrightarrow> i = i' \<and> s = s' \<and> e = e'"
  shows "distinct ps"
proof -
  from assms(1) obtain xs where ps: "ps = map (\<lambda>(s, e). mk i s e) xs"
    and xs: "set xs = slots_from (b i) M 0" and s: "sorted_wrt (\<lambda>x y. snd x < fst y) xs"
    by (auto simp: line_slots_def)
  have lt: "fst x < snd x" if "x \<in> set xs" for x
    using that xs by (auto simp: slots_from_def slot_def)
  have "distinct xs"
    using s lt by (induction xs) force+
  moreover have "inj_on (\<lambda>(s, e). mk i s e) (set xs)"
    by (rule inj_onI) (auto dest!: lt dest: inj)
  ultimately show ?thesis unfolding ps by (simp add: distinct_map)
qed

lemma lines_distinct:
  assumes "list_all2 (line_slots b mk M) is pss" and "distinct is"
    and inj: "\<And>i s e i' s' e'. mk i s e = mk i' s' e' \<Longrightarrow> s < e \<Longrightarrow> i = i' \<and> s = s' \<and> e = e'"
  shows "distinct (concat pss) \<and>
    set (concat pss) \<subseteq> {mk i s e | i s e. i \<in> set is \<and> s < e}"
  using assms(1,2)
proof (induction rule: list_all2_induct)
  case Nil
  then show ?case by simp
next
  case (Cons i "is" ps pss)
  from Cons.hyps(1) have d: "distinct ps" using inj by (rule line_slots_distinct)
  have sub: "set ps \<subseteq> {mk i s e | s e. s < e}"
  proof
    fix p assume "p \<in> set ps"
    with Cons.hyps(1) obtain s e where "p = mk i s e" "slot (b i) M s e"
      by (auto simp: line_slots_def slots_from_def)
    moreover from this have "s < e" by (simp add: slot_def)
    ultimately show "p \<in> {mk i s e | s e. s < e}" by blast
  qed
  from Cons have IH: "distinct (concat pss)"
    "set (concat pss) \<subseteq> {mk j s e | j s e. j \<in> set is \<and> s < e}" by simp_all
  have "set ps \<inter> set (concat pss) = {}"
  proof (rule ccontr)
    assume "set ps \<inter> set (concat pss) \<noteq> {}"
    then obtain p where "p \<in> set ps" "p \<in> set (concat pss)" by blast
    with sub IH(2) obtain s e j s' e' where "p = mk i s e" "s < e" "p = mk j s' e'" "j \<in> set is"
      by blast
    with inj [of i s e j s' e'] Cons.prems show False by auto
  qed
  moreover from sub IH(2)
  have "set (concat (ps # pss)) \<subseteq> {mk j s e | j s e. j \<in> set (i # is) \<and> s < e}"
    by (simp add: subset_iff) blast
  ultimately show ?case using d IH(1) by simp
qed

lemma loadWords_eq:
  assumes "grid_ok N M board"
  shows "\<exists>hs vs. loadWords isBox sort_areas N M board = Inr (sort_areas (concat hs @ concat vs)) \<and>
           list_all2 (line_slots (row_box isBox board) (hor_position M) M) [0..<N] hs \<and>
           list_all2 (line_slots (col_box isBox board) (ver_position M) N) [0..<M] vs"
proof -
  let ?H = "line_slots (row_box isBox board) (hor_position M) M"
  let ?V = "line_slots (col_box isBox board) (ver_position M) N"
  let ?rows = "lines_loop (\<lambda>i. scan (\<lambda>j. isBox_at isBox board i j) (hor_position M i) M 0)"
  let ?cols = "lines_loop (\<lambda>j. scan (\<lambda>i. isBox_at isBox board i j) (ver_position M j) N 0)"
  have "\<exists>hs. ?rows [0..<N] [] = Inr ([] @ concat hs) \<and> list_all2 ?H [0..<N] hs"
    using assms by (intro lines_loop_acc scan_line readable_row) simp_all
  then obtain hs where hs: "?rows [0..<N] [] = Inr (concat hs)" "list_all2 ?H [0..<N] hs"
    by auto
  have "\<exists>vs. ?cols [0..<M] (concat hs) = Inr (concat hs @ concat vs) \<and> list_all2 ?V [0..<M] vs"
    using assms by (intro lines_loop_acc scan_line readable_col) simp_all
  then obtain vs where "?cols [0..<M] (concat hs) = Inr (concat hs @ concat vs)"
    "list_all2 ?V [0..<M] vs"
    by auto
  with hs show ?thesis by (auto simp: loadWords_def)
qed

text \<open>No position is stored twice: not in a row, not in a column, not in both.\<close>

lemma areas_distinct:
  assumes "list_all2 (line_slots (row_box isBox board) (hor_position M) M) [0..<N] hs"
    and "list_all2 (line_slots (col_box isBox board) (ver_position M) N) [0..<M] vs"
  shows "distinct (concat hs @ concat vs)"
proof -
  from assms(1) have h: "distinct (concat hs)"
    "set (concat hs) \<subseteq> {hor_position M i s e | i s e. i \<in> set [0..<N] \<and> s < e}"
    using lines_distinct [of _ "hor_position M" M "[0..<N]" hs] hor_position_inj by simp_all
  from assms(2) have v: "distinct (concat vs)"
    "set (concat vs) \<subseteq> {ver_position M j s e | j s e. j \<in> set [0..<M] \<and> s < e}"
    using lines_distinct [of _ "ver_position M" N "[0..<M]" vs] ver_position_inj by simp_all
  from h(2) have "\<forall>p\<in>set (concat hs). hor p" by (auto simp: hor_position_def)
  moreover from v(2) have "\<forall>p\<in>set (concat vs). \<not> hor p" by (auto simp: ver_position_def)
  ultimately have "set (concat hs) \<inter> set (concat vs) = {}" by blast
  with h(1) v(1) show ?thesis by simp
qed


section \<open>What the extraction guarantees\<close>

lemma row_major_inj:
  fixes r c :: nat
  assumes "c < M" and "c' < M"
  shows "r * M + c = r' * M + c' \<longleftrightarrow> r = r' \<and> c = c'"
proof
  assume eq: "r * M + c = r' * M + c'"
  from assms have "(r * M + c) div M = r" "(r' * M + c') div M = r'" by simp_all
  with eq have "r = r'" by simp
  with eq show "r = r' \<and> c = c'" by simp
qed simp

lemma letters_of_area:
  assumes "list_all2 (line_slots (row_box isBox board) (hor_position M) M) [0..<N] hs"
    and "list_all2 (line_slots (col_box isBox board) (ver_position M) N) [0..<M] vs"
    and "p \<in> set (concat hs @ concat vs)" and "(cell, ident) \<in> set (letters p)"
  shows "fst cell < N \<and> snd cell < M \<and> ident = fst cell * M + snd cell \<and>
         \<not> isBox (board ! fst cell ! snd cell) \<and> 2 \<le> length (letters p)"
proof -
  from assms(3) consider i s e where "i < N" "slot (row_box isBox board i) M s e"
      "p = hor_position M i s e"
    | j s e where "j < M" "slot (col_box isBox board j) N s e" "p = ver_position M j s e"
    unfolding set_append set_line_slots [OF assms(1)] set_line_slots [OF assms(2)] by blast
  then show ?thesis
  proof cases
    case 1
    with assms(4) show ?thesis by (auto simp: hor_position_def slot_def row_box_def)
  next
    case 2
    with assms(4) show ?thesis by (auto simp: ver_position_def slot_def col_box_def)
  qed
qed

text \<open>
  C7 (functional). On a board that covers \<open>N\<close> rows and \<open>M\<close> columns, \<^verbatim>\<open>loadWords\<close> returns,
  and the positions it returns are exactly one horizontal position for every maximal run
  of at least two cells without a box in a row, and one vertical position for every
  such run in a column, whatever order the final sort leaves them in: the list holds
  these positions and no others, and none of them twice.
\<close>

theorem loadWords_slots:
  assumes "grid_ok N M board" and "\<And>xs. mset (sort_areas xs) = mset xs"
  shows "\<exists>areas. loadWords isBox sort_areas N M board = Inr areas \<and>
     set areas = {hor_position M i s e | i s e. i < N \<and> slot (row_box isBox board i) M s e} \<union>
                 {ver_position M j s e | j s e. j < M \<and> slot (col_box isBox board j) N s e} \<and>
     distinct areas"
proof -
  from loadWords_eq [OF assms(1), of isBox sort_areas] obtain hs vs where
    l: "loadWords isBox sort_areas N M board = Inr (sort_areas (concat hs @ concat vs))"
    and h: "list_all2 (line_slots (row_box isBox board) (hor_position M) M) [0..<N] hs"
    and v: "list_all2 (line_slots (col_box isBox board) (ver_position M) N) [0..<M] vs"
    by blast
  have "set (sort_areas (concat hs @ concat vs)) = set (concat hs @ concat vs)"
    using assms(2) by (rule set_mset_eq_set)
  moreover have "distinct (sort_areas (concat hs @ concat vs))"
    using areas_distinct [OF h v] mset_eq_imp_distinct_iff [OF assms(2)] by simp
  ultimately show ?thesis
    using l unfolding set_append set_line_slots [OF h] set_line_slots [OF v] by simp
qed

theorem loadWords_slots_witness:
  "\<exists>areas. loadWords (\<lambda>c. c = 0) id 1 3 [[1, 1, 0]] = Inr areas \<and>
     hor_position 3 0 0 2 \<in> set areas"
proof -
  have sl: "slot (row_box (\<lambda>c. c = 0) [[1, 1, 0]] 0) 3 0 2"
    by (simp add: slot_def row_box_def less_Suc_eq numeral_2_eq_2)
  from loadWords_slots [of 1 3 "[[1, 1, 0]]" id "\<lambda>c. c = 0"] obtain areas where
    a: "loadWords (\<lambda>c. c = 0) id 1 3 [[1, 1, 0]] = Inr areas" and
    s: "set areas =
      {hor_position 3 i s e | i s e. i < 1 \<and> slot (row_box (\<lambda>c. c = 0) [[1, 1, 0]] i) 3 s e} \<union>
      {ver_position 3 j s e | j s e. j < 3 \<and> slot (col_box (\<lambda>c. c = 0) [[1, 1, 0]] j) 1 s e}"
    by (auto simp: grid_ok_def)
  from sl have "hor_position 3 0 0 2 \<in> set areas" unfolding s by blast
  with a show ?thesis by blast
qed

text \<open>
  C27 (invariant). Every letter of every position that \<^verbatim>\<open>loadWords\<close> returns refers to a
  cell inside the scanned part of the board that is not a box, and carries the
  row-major number of that cell; every position has at least two letters; and two
  letters, of the same or of different positions, have the same number exactly when
  they refer to the same cell, which is how a crossing is recognised.
\<close>

theorem letters_identify_cells:
  assumes "grid_ok N M board" and "\<And>xs. mset (sort_areas xs) = mset xs"
    and "loadWords isBox sort_areas N M board = Inr areas"
    and "p \<in> set areas" and "(cell, ident) \<in> set (letters p)"
    and "q \<in> set areas" and "(cell', ident') \<in> set (letters q)"
  shows "fst cell < N \<and> snd cell < M \<and> ident = fst cell * M + snd cell \<and>
         \<not> isBox (board ! fst cell ! snd cell) \<and> 2 \<le> length (letters p) \<and>
         (ident = ident' \<longleftrightarrow> cell = cell')"
proof -
  from loadWords_eq [OF assms(1), of isBox sort_areas] assms(3) obtain hs vs where
    a: "areas = sort_areas (concat hs @ concat vs)"
    and h: "list_all2 (line_slots (row_box isBox board) (hor_position M) M) [0..<N] hs"
    and v: "list_all2 (line_slots (col_box isBox board) (ver_position M) N) [0..<M] vs"
    by force
  have "set areas = set (concat hs @ concat vs)"
    unfolding a using assms(2) by (rule set_mset_eq_set)
  with assms(4,6) have "p \<in> set (concat hs @ concat vs)" "q \<in> set (concat hs @ concat vs)"
    by simp_all
  from letters_of_area [OF h v this(1) assms(5)] letters_of_area [OF h v this(2) assms(7)]
  show ?thesis by (auto simp: row_major_inj prod_eq_iff)
qed

theorem letters_identify_cells_witness:
  "\<exists>areas. loadWords (\<lambda>c. c = 0) id 1 3 [[1, 1, 0]] = Inr areas \<and>
     (\<forall>p\<in>set areas. \<forall>l\<in>set (letters p). snd l = fst (fst l) * 3 + snd (fst l))"
proof -
  have g: "grid_ok 1 3 [[1, 1, 0]]" by (simp add: grid_ok_def)
  from loadWords_eq [OF g, of "\<lambda>c. c = 0" id] obtain areas where
    a: "loadWords (\<lambda>c. c = 0) id 1 3 [[1, 1, 0]] = Inr areas" by auto
  have "snd l = fst (fst l) * 3 + snd (fst l)" if "p \<in> set areas" "l \<in> set (letters p)" for p l
    using letters_identify_cells [OF g _ a that(1) _ that(1), of "fst l" "snd l" "fst l" "snd l"] that(2)
    by simp
  with a show ?thesis by blast
qed


section \<open>Open lines and short lines\<close>

lemma slots_from_open:
  assumes "\<forall>x<M. \<not> b x"
  shows "slots_from b M 0 = (if 2 \<le> M then {(0, M)} else {})"
  using slots_from_run [of 0 M b M] assms by (simp add: slots_from_beyond)

lemma slots_from_short: "M \<le> 1 \<Longrightarrow> slots_from b M j = {}"
  by (auto simp: slots_from_def slot_def)

lemma line_slots_none:
  assumes "line_slots b mk M i ps" and "slots_from (b i) M 0 = {}"
  shows "ps = []"
  using assms by (auto simp: line_slots_def)

lemma line_slots_one:
  assumes "line_slots b mk M i ps" and "slots_from (b i) M 0 = {(s, e)}" and "s \<le> e"
  shows "ps = [mk i s e]"
proof -
  from assms(1,2) obtain xs where xs: "ps = map (\<lambda>(s, e). mk i s e) xs" "set xs = {(s, e)}"
    "sorted_wrt (\<lambda>x y. snd x < fst y) xs"
    by (auto simp: line_slots_def)
  from xs(2) obtain ys where ys: "xs = (s, e) # ys" "set ys \<subseteq> {(s, e)}"
    by (cases xs) auto
  with xs(3) assms(3) have "ys = []" by (cases ys) auto
  with xs(1) ys(1) show ?thesis by simp
qed

lemma concat_nones: "list_all2 (\<lambda>i ps. ps = []) is pss \<Longrightarrow> concat pss = []"
  by (induction rule: list_all2_induct) simp_all

text \<open>
  A board of one row without a box has exactly one position, the
  whole row, when the row has at least two cells, and no position when it has one cell
  or none; no vertical position is found in either case.
\<close>

theorem open_row_one_slot:
  assumes "length row = M" and "\<forall>c\<in>set row. \<not> isBox c"
    and "\<And>xs. mset (sort_areas xs) = mset xs"
  shows "loadWords isBox sort_areas 1 M [row] = Inr (if 2 \<le> M then [hor_position M 0 0 M] else [])"
proof -
  let ?b = "row_box isBox [row]"
  have g: "grid_ok 1 M [row]" using assms(1) by (simp add: grid_ok_def)
  from loadWords_eq [OF g, of isBox sort_areas] obtain hs vs where
    l: "loadWords isBox sort_areas 1 M [row] = Inr (sort_areas (concat hs @ concat vs))"
    and h: "list_all2 (line_slots ?b (hor_position M) M) [0..<1] hs"
    and v: "list_all2 (line_slots (col_box isBox [row]) (ver_position M) 1) [0..<M] vs"
    by blast
  from v have "list_all2 (\<lambda>i ps. ps = []) [0..<M] vs"
    by (rule list_all2_mono) (auto intro: line_slots_none simp: slots_from_short)
  then have vs: "concat vs = []" by (rule concat_nones)
  from h obtain ps where ps: "hs = [ps]" "line_slots ?b (hor_position M) M 0 ps"
    by (auto simp: list_all2_Cons1)
  have "slots_from (?b 0) M 0 = (if 2 \<le> M then {(0, M)} else {})"
    using assms(1,2) by (intro slots_from_open) (simp add: row_box_def)
  with ps(2) have "ps = (if 2 \<le> M then [hor_position M 0 0 M] else [])"
    by (auto intro: line_slots_one line_slots_none)
  with l vs ps(1) assms(3) [of "[hor_position M 0 0 M]"] assms(3) [of "[]"] show ?thesis
    by auto
qed

theorem open_row_one_slot_witness:
  "loadWords (\<lambda>c. c = 0) id 1 1 [[1]] = Inr []
   \<and> loadWords (\<lambda>c. c = 0) id 1 3 [[1, 1, 1]] = Inr [hor_position 3 0 0 3]"
  using open_row_one_slot [of "[1]" 1 "\<lambda>c. c = 0" id]
    open_row_one_slot [of "[1, 1, 1]" 3 "\<lambda>c. c = 0" id]
  by simp

text \<open>
  A board with fewer rows than \<open>N\<close> is read beyond its end as soon as a row
  is scanned that has a column.
\<close>

theorem short_board_faults:
  assumes "length board < N" and "0 < M" and "\<forall>row\<in>set board. length row = M"
  shows "loadWords isBox sort_areas N M board = Inl CellOutOfBounds"
proof -
  let ?line = "\<lambda>i. scan (\<lambda>j. isBox_at isBox board i j) (hor_position M i) M 0"
  have ok: "\<exists>ps. ?line i areas = Inr (areas @ ps) \<and> True" if "i \<in> set [0..<length board]" for i areas
  proof -
    from that assms(3) have "readable_line (\<lambda>j. isBox_at isBox board i j) (row_box isBox board i) M"
      by (simp add: readable_line_def isBox_at_def row_box_def)
    from scan_slots [OF this, of 0 "hor_position M i" areas] show ?thesis by auto
  qed
  from lines_loop_acc [of "[0..<length board]" ?line "\<lambda>i ps. True" "[]", OF ok]
  obtain areas where a: "lines_loop ?line [0..<length board] [] = Inr areas" by auto
  have "run_end (\<lambda>j. isBox_at isBox board (length board) j) M 0 = Inl CellOutOfBounds"
    using assms(2) by (subst run_end.simps) (simp add: isBox_at_def)
  with assms(2) have "?line (length board) areas = Inl CellOutOfBounds"
    by (subst scan.simps) simp
  moreover from assms(1) obtain k where "[0..<N] = [0..<length board] @ length board # k"
    by (metis less_imp_add_positive upt_add_eq_append upt_conv_Cons zero_le)
  ultimately have "lines_loop ?line [0..<N] [] = Inl CellOutOfBounds"
    using a by (simp add: lines_loop_append)
  then show ?thesis by (simp add: loadWords_def)
qed

theorem short_board_faults_witness:
  "loadWords (\<lambda>c. c = 0) id 2 2 [[1, 1]] = Inl CellOutOfBounds"
  using short_board_faults [of "[[1, 1]]" 2 2 "\<lambda>c. c = 0" id] by simp

end
