(* ===== verification/Board_Grid.thy ===== *)
theory Board_Grid
  imports Board_Slots Text_Normalizer
begin

text \<open>
  \<^verbatim>\<open>crossword::load\<close> (lines 48-64 of \<^verbatim>\<open>src/crossword.cpp\<close>) from the point where the file
  is open: the two bytes \<open>N\<close> and \<open>M\<close>, the loop that pushes \<open>N\<close> rows onto the board and
  \<open>M\<close> cells \<^verbatim>\<open>'0'\<close> onto each of the rows 0 to \<open>N - 1\<close>, the cells read from the file and
  remapped from the DOS code page, and the call of \<^verbatim>\<open>loadWords\<close>. The
  file is the list of its bytes; a read beyond its end leaves the variable that is read
  uninitialised and is a fault here.

  \<open>N\<close> and \<open>M\<close> are of type \<^verbatim>\<open>char\<close>, the only type that \<^verbatim>\<open>fin.get(N)\<close> accepts, and the
  loops compare them with an \<^verbatim>\<open>int\<close>. Whether \<^verbatim>\<open>char\<close> is signed is the choice of the
  compiler, so it is the parameter \<open>sg\<close> of every definition that reads \<open>N\<close> or \<open>M\<close> as a
  number: with a signed \<^verbatim>\<open>char\<close> a size byte of 128 or more is a negative size.
\<close>

section \<open>The object\<close>

record crossword =
  N :: byte
  M :: byte
  board :: board
  areas :: "position list"
  name :: string

text \<open>
  The constructor initialises nothing: the vectors and the string are empty, \<open>N\<close> and \<open>M\<close>
  hold whatever the memory held, the bytes \<open>n0\<close> and \<open>m0\<close>.
\<close>

definition new_crossword :: "byte \<Rightarrow> byte \<Rightarrow> crossword" where
  "new_crossword n0 m0 = \<lparr>N = n0, M = m0, board = [], areas = [], name = []\<rparr>"

text \<open>
  The value of a \<^verbatim>\<open>char\<close> where an \<^verbatim>\<open>int\<close> is expected, and the number of rounds of a loop
  \<^verbatim>\<open>for (int i = 0; i < c; i++)\<close> whose bound \<open>c\<close> is a \<^verbatim>\<open>char\<close>.
\<close>

definition char_int :: "bool \<Rightarrow> byte \<Rightarrow> int" where
  "char_int sg c = (if sg then sint c else uint c)"

definition extent :: "bool \<Rightarrow> byte \<Rightarrow> nat" where
  "extent sg c = nat (char_int sg c)"

definition cyrillicA :: nat where
  "cyrillicA = 192"

text \<open>\<^verbatim>\<open>if (uc(board[i][j] + 64) >= cyrillicA) board[i][j] += 64;\<close>\<close>

definition remap :: "byte \<Rightarrow> byte" where
  "remap c = (if cyrillicA \<le> unat (c + 64) then c + 64 else c)"

definition put_cell :: "board \<Rightarrow> nat \<Rightarrow> nat \<Rightarrow> byte \<Rightarrow> grid_fault + board" where
  "put_cell b i j v =
     (if i < length b \<and> j < length (b ! i) then Inr (b[i := (b ! i)[j := v]])
      else Inl CellOutOfBounds)"

section \<open>Making room\<close>

text \<open>
  One round of the loop of lines 50-53: \<^verbatim>\<open>board.push_back(vector<uc>())\<close> appends an empty
  row, and the inner loop pushes \<open>m\<close> cells \<^verbatim>\<open>'0'\<close> onto \<^verbatim>\<open>board[i]\<close>, which is the row just
  appended only if the board was empty when the loop began.
\<close>

definition push_row :: "nat \<Rightarrow> nat \<Rightarrow> board \<Rightarrow> grid_fault + board" where
  "push_row i m b =
     (let b = b @ [[]]
      in if i < length b then Inr (b[i := b ! i @ replicate m 48]) else Inl CellOutOfBounds)"

fun push_rows :: "nat list \<Rightarrow> nat \<Rightarrow> board \<Rightarrow> grid_fault + board" where
  "push_rows [] m b = Inr b"
| "push_rows (i # is) m b =
     (case push_row i m b of Inl e \<Rightarrow> Inl e | Inr b' \<Rightarrow> push_rows is m b')"

section \<open>Reading the cells\<close>

fun fill_row :: "nat \<Rightarrow> nat list \<Rightarrow> byte list \<Rightarrow> board \<Rightarrow> grid_fault + byte list \<times> board" where
  "fill_row i [] fin b = Inr (fin, b)"
| "fill_row i (j # js) fin b =
     (case fin of
        [] \<Rightarrow> Inl ReadPastEnd
      | c # fin' \<Rightarrow>
          (case put_cell b i j (remap c) of
             Inl e \<Rightarrow> Inl e
           | Inr b' \<Rightarrow> fill_row i js fin' b'))"

fun fill_rows :: "nat list \<Rightarrow> nat \<Rightarrow> byte list \<Rightarrow> board \<Rightarrow> grid_fault + byte list \<times> board" where
  "fill_rows [] m fin b = Inr (fin, b)"
| "fill_rows (i # is) m fin b =
     (case fill_row i [0..<m] fin b of
        Inl e \<Rightarrow> Inl e
      | Inr (fin', b') \<Rightarrow> fill_rows is m fin' b')"

definition load_grid :: "bool \<Rightarrow> byte list \<Rightarrow> crossword \<Rightarrow> grid_fault + crossword" where
  "load_grid sg file cw =
     (case file of
        n # m # cells \<Rightarrow>
          let cw = cw\<lparr>N := n, M := m\<rparr>
          in (case push_rows [0..<extent sg (N cw)] (extent sg (M cw)) (board cw) of
                Inl e \<Rightarrow> Inl e
              | Inr b \<Rightarrow>
                  (case fill_rows [0..<extent sg (N cw)] (extent sg (M cw)) cells b of
                     Inl e \<Rightarrow> Inl e
                   | Inr (fin, b) \<Rightarrow> Inr (cw\<lparr>board := b\<rparr>)))
      | _ \<Rightarrow> Inl ReadPastEnd)"

text \<open>
  \<^verbatim>\<open>loadWords\<close> reads \<open>N\<close> and \<open>M\<close> in the bounds of its loops and, inside them, in
  \<^verbatim>\<open>i*M + start\<close>; inside the loops both are positive, so it gets their extents.
\<close>

definition load_stream ::
  "bool \<Rightarrow> (byte \<Rightarrow> bool) \<Rightarrow> (position list \<Rightarrow> position list) \<Rightarrow> byte list \<Rightarrow> crossword
     \<Rightarrow> grid_fault + crossword" where
  "load_stream sg isBox sort_areas file cw =
     (case load_grid sg file cw of
        Inl e \<Rightarrow> Inl e
      | Inr cw \<Rightarrow>
          (case loadWords isBox sort_areas (extent sg (N cw)) (extent sg (M cw)) (board cw) of
             Inl e \<Rightarrow> Inl e
           | Inr a \<Rightarrow> Inr (cw\<lparr>areas := a\<rparr>)))"

section \<open>Sizes\<close>

lemma extent_unsigned [simp]: "extent False c = unat c"
  by (simp add: extent_def char_int_def)

lemma extent_signed: "extent True c = (if unat c < 128 then unat c else 0)"
  using uint_bounded [of c] by (simp add: extent_def char_int_def sint_byte)

section \<open>The remap is the code page conversion of the dictionary\<close>

lemma remap_eq: "remap c = (if 128 \<le> unat c \<and> unat c < 192 then c + 64 else c)"
  using unat_byte_less [of c] by (auto simp: remap_def cyrillicA_def unat_byte_add)

section \<open>The effect of the fill loops\<close>

text \<open>The board after the cells \<open>(i, j0)\<close> to \<open>(i, j1 - 1)\<close> were read from \<open>fin\<close>.\<close>

definition row_filled :: "nat \<Rightarrow> nat \<Rightarrow> nat \<Rightarrow> byte list \<Rightarrow> board \<Rightarrow> board \<Rightarrow> bool" where
  "row_filled i j0 j1 fin b b' \<longleftrightarrow>
     length b' = length b \<and> (\<forall>r<length b. length (b' ! r) = length (b ! r)) \<and>
     (\<forall>r<length b. \<forall>j<length (b ! r).
        b' ! r ! j = (if r = i \<and> j0 \<le> j \<and> j < j1 then remap (fin ! (j - j0)) else b ! r ! j))"

lemma put_cell_filled:
  assumes "i < length b" and "j < length (b ! i)"
  shows "\<exists>b'. put_cell b i j v = Inr b' \<and> length b' = length b \<and>
           (\<forall>r<length b. length (b' ! r) = length (b ! r)) \<and>
           (\<forall>r<length b. \<forall>j'<length (b ! r). b' ! r ! j' = (if r = i \<and> j' = j then v else b ! r ! j'))"
  using assms by (auto simp: put_cell_def nth_list_update)

lemma fill_row_filled:
  assumes "i < length b" and "j1 \<le> length (b ! i)" and "j0 \<le> j1" and "j1 - j0 \<le> length fin"
  shows "\<exists>b'. fill_row i [j0..<j1] fin b = Inr (drop (j1 - j0) fin, b') \<and> row_filled i j0 j1 fin b b'"
  using assms
proof (induction "j1 - j0" arbitrary: j0 fin b)
  case 0
  then show ?case by (auto simp: row_filled_def)
next
  case (Suc k)
  then have lt: "j0 < j1" by simp
  with Suc.prems(4) obtain c fin' where fin: "fin = c # fin'" by (cases fin) auto
  from lt Suc.prems(1,2) put_cell_filled [of i b j0 "remap c"] obtain b1 where
    b1: "put_cell b i j0 (remap c) = Inr b1" "length b1 = length b"
    "\<forall>r<length b. length (b1 ! r) = length (b ! r)"
    "\<forall>r<length b. \<forall>j'<length (b ! r). b1 ! r ! j' = (if r = i \<and> j' = j0 then remap c else b ! r ! j')"
    by auto
  from Suc.hyps(2) Suc.prems fin b1(2,3) lt
  have "\<exists>b'. fill_row i [Suc j0..<j1] fin' b1 = Inr (drop (j1 - Suc j0) fin', b') \<and>
          row_filled i (Suc j0) j1 fin' b1 b'"
    by (intro Suc.hyps(1)) auto
  then obtain b' where b': "fill_row i [Suc j0..<j1] fin' b1 = Inr (drop (j1 - Suc j0) fin', b')"
    "row_filled i (Suc j0) j1 fin' b1 b'"
    by blast
  from lt have "j1 - j0 = Suc (j1 - Suc j0)" by simp
  then have d: "drop (j1 - j0) fin = drop (j1 - Suc j0) fin'"
    by (simp only: fin drop_Suc_Cons)
  from lt b1(1) b'(1) have "fill_row i [j0..<j1] fin b = Inr (drop (j1 - Suc j0) fin', b')"
    by (simp add: upt_conv_Cons fin)
  then have "fill_row i [j0..<j1] fin b = Inr (drop (j1 - j0) fin, b')"
    by (simp only: d)
  moreover have "row_filled i j0 j1 fin b b'"
    using b'(2) b1(2,3,4) lt
    by (auto simp: row_filled_def fin nth_Cons' Suc_diff_Suc less_Suc_eq_le)
  ultimately show ?case by blast
qed


text \<open>The board after the rows \<open>i0\<close> to \<open>i1 - 1\<close> were read from \<open>fin\<close>, \<open>m\<close> cells each.\<close>

definition rows_filled :: "nat \<Rightarrow> nat \<Rightarrow> nat \<Rightarrow> byte list \<Rightarrow> board \<Rightarrow> board \<Rightarrow> bool" where
  "rows_filled i0 i1 m fin b b' \<longleftrightarrow>
     length b' = length b \<and> (\<forall>r<length b. length (b' ! r) = length (b ! r)) \<and>
     (\<forall>r<length b. \<forall>j<length (b ! r).
        b' ! r ! j =
          (if i0 \<le> r \<and> r < i1 \<and> j < m then remap (fin ! ((r - i0) * m + j)) else b ! r ! j))"

lemma rows_filled_step:
  assumes "row_filled i0 0 m fin b b1" and "rows_filled (Suc i0) i1 m (drop m fin) b1 b'"
    and "i0 < i1" and "(i1 - i0) * m \<le> length fin"
  shows "rows_filled i0 i1 m fin b b'"
proof -
  from assms(3,4) have m: "m \<le> length fin"
    by (metis Suc_diff_Suc le_add1 le_trans mult_Suc)
  have idx: "drop m fin ! ((r - Suc i0) * m + j) = fin ! ((r - i0) * m + j)" if "i0 < r" for r j
  proof -
    from that have "r - i0 = Suc (r - Suc i0)" by simp
    then have "m + ((r - Suc i0) * m + j) = (r - i0) * m + j" by simp
    with m show ?thesis by (metis nth_drop)
  qed
  have "b' ! r ! j =
      (if i0 \<le> r \<and> r < i1 \<and> j < m then remap (fin ! ((r - i0) * m + j)) else b ! r ! j)"
    if "r < length b" "j < length (b ! r)" for r j
  proof (cases "r = i0")
    case True
    with that assms(1,2) show ?thesis by (simp add: row_filled_def rows_filled_def assms(3))
  next
    case False
    with that assms(1,2) idx [of r j] show ?thesis
      by (auto simp: row_filled_def rows_filled_def)
  qed
  with assms(1,2) show ?thesis by (simp add: row_filled_def rows_filled_def)
qed

lemma fill_rows_filled:
  assumes "i1 \<le> length b" and "\<forall>r. i0 \<le> r \<and> r < i1 \<longrightarrow> m \<le> length (b ! r)" and "i0 \<le> i1"
    and "(i1 - i0) * m \<le> length fin"
  shows "\<exists>b'. fill_rows [i0..<i1] m fin b = Inr (drop ((i1 - i0) * m) fin, b') \<and>
           rows_filled i0 i1 m fin b b'"
  using assms
proof (induction "i1 - i0" arbitrary: i0 fin b)
  case 0
  then show ?case by (auto simp: rows_filled_def)
next
  case (Suc k)
  then have lt: "i0 < i1" and k: "i1 - i0 = Suc (i1 - Suc i0)" by simp_all
  from Suc.prems(4) have len: "m \<le> length fin" "(i1 - Suc i0) * m \<le> length (drop m fin)"
    by (simp_all add: k)
  from lt Suc.prems(1,2) len(1) fill_row_filled [of i0 b m 0 fin] obtain b1 where
    b1: "fill_row i0 [0..<m] fin b = Inr (drop m fin, b1)" "row_filled i0 0 m fin b b1"
    by auto
  then have same: "length b1 = length b" "\<forall>r<length b. length (b1 ! r) = length (b ! r)"
    by (simp_all add: row_filled_def)
  from Suc.hyps(2) Suc.prems(1,2) lt same len(2)
  have "\<exists>b'. fill_rows [Suc i0..<i1] m (drop m fin) b1 =
           Inr (drop ((i1 - Suc i0) * m) (drop m fin), b') \<and>
         rows_filled (Suc i0) i1 m (drop m fin) b1 b'"
    by (intro Suc.hyps(1)) auto
  then obtain b' where b': "fill_rows [Suc i0..<i1] m (drop m fin) b1 =
      Inr (drop ((i1 - Suc i0) * m) (drop m fin), b')"
    "rows_filled (Suc i0) i1 m (drop m fin) b1 b'"
    by blast
  from lt b1(1) b'(1) have "fill_rows [i0..<i1] m fin b = Inr (drop ((i1 - i0) * m) fin, b')"
    by (simp add: upt_conv_Cons k add.commute)
  moreover from b1(2) b'(2) lt Suc.prems(4) have "rows_filled i0 i1 m fin b b'"
    by (rule rows_filled_step)
  ultimately show ?case by blast
qed


section \<open>The effect of the loop that makes room\<close>

text \<open>The board after \<open>k\<close> rounds: \<open>k\<close> more rows, and the rows 0 to \<open>k - 1\<close> longer by \<open>m\<close> cells.\<close>

definition rows_pushed :: "nat \<Rightarrow> nat \<Rightarrow> board \<Rightarrow> board \<Rightarrow> bool" where
  "rows_pushed k m b b' \<longleftrightarrow>
     length b' = length b + k \<and>
     (\<forall>r<length b + k.
        b' ! r = (if r < length b then b ! r else []) @ (if r < k then replicate m 48 else []))"

lemma push_rows_append:
  "push_rows (is @ js) m b =
     (case push_rows is m b of Inl e \<Rightarrow> Inl e | Inr b' \<Rightarrow> push_rows js m b')"
  by (induction "is" arbitrary: b) (auto split: sum.splits)

lemma push_row_pushed:
  assumes "rows_pushed k m b b1"
  shows "\<exists>b'. push_row k m b1 = Inr b' \<and> rows_pushed (Suc k) m b b'"
proof -
  let ?b = "b1 @ [[]]"
  from assms have len: "length b1 = length b + k"
    and rows: "\<forall>r<length b + k. b1 ! r =
      (if r < length b then b ! r else []) @ (if r < k then replicate m 48 else [])"
    by (simp_all add: rows_pushed_def)
  have k: "?b ! k = (if k < length b then b ! k else [])"
    using len rows by (cases "k < length b") (auto simp: nth_append)
  have "push_row k m b1 = Inr (?b[k := ?b ! k @ replicate m 48])"
    using len by (simp add: push_row_def Let_def)
  moreover have "rows_pushed (Suc k) m b (?b[k := ?b ! k @ replicate m 48])"
    unfolding rows_pushed_def
  proof (intro conjI allI impI)
    show "length (?b[k := ?b ! k @ replicate m 48]) = length b + Suc k" using len by simp
    fix r assume r: "r < length b + Suc k"
    show "?b[k := ?b ! k @ replicate m 48] ! r =
        (if r < length b then b ! r else []) @ (if r < Suc k then replicate m 48 else [])"
    proof (cases "r = k")
      case True
      with len k show ?thesis by simp
    next
      case False
      with r len rows show ?thesis
        by (cases "r < length b + k") (auto simp: nth_append)
    qed
  qed
  ultimately show ?thesis by blast
qed

lemma push_rows_pushed: "\<exists>b'. push_rows [0..<k] m b = Inr b' \<and> rows_pushed k m b b'"
proof (induction k)
  case 0
  show ?case by (simp add: rows_pushed_def)
next
  case (Suc k)
  then obtain b1 where b1: "push_rows [0..<k] m b = Inr b1" "rows_pushed k m b b1" by blast
  from push_row_pushed [OF b1(2)] obtain b' where
    "push_row k m b1 = Inr b'" "rows_pushed (Suc k) m b b'" by blast
  with b1(1) show ?case by (auto simp: push_rows_append)
qed

section \<open>The effect of load_grid\<close>

text \<open>What \<open>load_grid\<close> makes of the board \<open>b\<close> with the cells \<open>cells\<close> of an \<open>n \<times> m\<close> grid.\<close>

definition grid_loaded :: "nat \<Rightarrow> nat \<Rightarrow> byte list \<Rightarrow> board \<Rightarrow> board \<Rightarrow> bool" where
  "grid_loaded n m cells b b' \<longleftrightarrow>
     length b' = length b + n \<and>
     (\<forall>r<n. length (b' ! r) = (if r < length b then length (b ! r) else 0) + m) \<and>
     (\<forall>r<n. \<forall>j<m. b' ! r ! j = remap (cells ! (r * m + j))) \<and>
     (\<forall>r<n. \<forall>j. m \<le> j \<and> j < length (b' ! r) \<longrightarrow>
        b' ! r ! j = ((if r < length b then b ! r else []) @ replicate m 48) ! j) \<and>
     (\<forall>r. n \<le> r \<and> r < length b + n \<longrightarrow> b' ! r = (if r < length b then b ! r else []))"

lemma grid_loadedI:
  assumes p: "rows_pushed n m b b1" and f: "rows_filled 0 n m cells b1 b'"
  shows "grid_loaded n m cells b b'"
proof -
  from p have len1: "length b1 = length b + n"
    and rows1: "\<And>r. r < length b + n \<Longrightarrow> b1 ! r =
      (if r < length b then b ! r else []) @ (if r < n then replicate m 48 else [])"
    by (simp_all add: rows_pushed_def)
  from f have len: "length b' = length b1"
    and rows: "\<And>r. r < length b1 \<Longrightarrow> length (b' ! r) = length (b1 ! r)"
    and cells: "\<And>r j. r < length b1 \<Longrightarrow> j < length (b1 ! r) \<Longrightarrow> b' ! r ! j =
      (if r < n \<and> j < m then remap (cells ! (r * m + j)) else b1 ! r ! j)"
    by (simp_all add: rows_filled_def)
  have "b' ! r = (if r < length b then b ! r else [])" if "n \<le> r" "r < length b + n" for r
  proof -
    from that have "b1 ! r = (if r < length b then b ! r else [])" by (simp add: rows1)
    moreover from that have "b' ! r = b1 ! r"
      by (intro nth_equalityI) (simp_all add: rows cells len1)
    ultimately show ?thesis by simp
  qed
  moreover have "b' ! r ! j = remap (cells ! (r * m + j))" if "r < n" "j < m" for r j
    using that cells [of r j] by (simp add: len1 rows1)
  moreover have "b' ! r ! j = ((if r < length b then b ! r else []) @ replicate m 48) ! j"
    if "r < n" "m \<le> j" "j < length (b' ! r)" for r j
    using that cells [of r j] rows [of r] by (simp add: len1 rows1)
  moreover have "length (b' ! r) = (if r < length b then length (b ! r) else 0) + m"
    if "r < n" for r
    using that rows [of r] by (simp add: len1 rows1)
  ultimately show ?thesis unfolding grid_loaded_def using len len1 by simp
qed

lemma load_grid_effect:
  assumes "extent sg n * extent sg m \<le> length cells"
  shows "\<exists>b'. load_grid sg (n # m # cells) cw = Inr (cw\<lparr>N := n, M := m, board := b'\<rparr>) \<and>
           grid_loaded (extent sg n) (extent sg m) cells (board cw) b'"
proof -
  from push_rows_pushed [of "extent sg n" "extent sg m" "board cw"] obtain b1 where
    b1: "push_rows [0..<extent sg n] (extent sg m) (board cw) = Inr b1"
    "rows_pushed (extent sg n) (extent sg m) (board cw) b1"
    by blast
  then have "extent sg n \<le> length b1" "\<forall>r. 0 \<le> r \<and> r < extent sg n \<longrightarrow> extent sg m \<le> length (b1 ! r)"
    by (simp_all add: rows_pushed_def)
  with assms fill_rows_filled [of "extent sg n" b1 0 "extent sg m" cells] obtain b' where
    b': "fill_rows [0..<extent sg n] (extent sg m) cells b1 = Inr (drop (extent sg n * extent sg m) cells, b')"
    "rows_filled 0 (extent sg n) (extent sg m) cells b1 b'"
    by auto
  from b1(2) b'(2) have "grid_loaded (extent sg n) (extent sg m) cells (board cw) b'" by (rule grid_loadedI)
  with b1(1) b'(1) show ?thesis by (auto simp: load_grid_def Let_def)
qed

text \<open>
  Where \<^verbatim>\<open>char\<close> is signed, a file whose first size byte is 128 or more is read as a grid
  with a negative number of rows: no loop runs, no cell is read, the board stays as it is.
\<close>

lemma load_grid_negative:
  assumes "128 \<le> unat n"
  shows "load_grid True (n # m # cells) cw = Inr (cw\<lparr>N := n, M := m\<rparr>)"
  using assms by (simp add: load_grid_def extent_signed)

lemma grid_loaded_ok: "grid_loaded n m cells b b' \<Longrightarrow> grid_ok n m b'"
  by (simp add: grid_loaded_def grid_ok_def)

lemma slot_cong: "(\<And>x. x < k \<Longrightarrow> b x = b' x) \<Longrightarrow> slot b k s e = slot b' k s e"
  unfolding slot_def
  by (intro conj_cong refl all_cong1 imp_cong disj_cong) (auto simp: le_less)

text \<open>
  The remap of a cell byte is the code page conversion that the
  dictionary applies to its words: both move the block 128-191 of the DOS code
  page onto the letters 192-255 and leave every other byte as it is.
\<close>

theorem remap_is_dosToWin: "remap c = dosToWin_char c"
  by (simp add: remap_eq dosToWin_char_def CYRILLIC_A_def)

text \<open>
  Loading into an object whose board is empty, from a file that holds
  the two size bytes and at least \<open>N * M\<close> cell bytes, returns the \<open>N \<times> M\<close> board of
  the remapped cell bytes in row-major order, \<open>N\<close> and \<open>M\<close> being the extents of the size
  bytes.
\<close>

theorem load_grid_fresh:
  assumes "board cw = []" and "extent sg n * extent sg m \<le> length cells"
  shows "load_grid sg (n # m # cells) cw =
     Inr (cw\<lparr>N := n, M := m,
              board := map (\<lambda>i. map (\<lambda>j. remap (cells ! (i * extent sg m + j))) [0..<extent sg m])
                         [0..<extent sg n]\<rparr>)"
proof -
  from load_grid_effect [OF assms(2), of cw] assms(1) obtain b' where
    l: "load_grid sg (n # m # cells) cw = Inr (cw\<lparr>N := n, M := m, board := b'\<rparr>)"
    and g: "grid_loaded (extent sg n) (extent sg m) cells [] b'"
    by auto
  have "b' = map (\<lambda>i. map (\<lambda>j. remap (cells ! (i * extent sg m + j))) [0..<extent sg m]) [0..<extent sg n]"
    using g by (intro nth_equalityI) (simp_all add: grid_loaded_def)
  with l show ?thesis by simp
qed

theorem load_grid_fresh_witness:
  "load_grid False [1, 3, 140, 48, 200] (new_crossword n0 m0) =
     Inr \<lparr>N = 1, M = 3, board = [[204, 48, 200]], areas = [], name = []\<rparr>"
  using load_grid_fresh [of "new_crossword n0 m0" False 1 3 "[140, 48, 200]"]
  by (simp add: new_crossword_def remap_eq upt_conv_Cons)

text \<open>
  C37 (functional). \<^verbatim>\<open>load\<close> does not clear the board, and the loop that makes room
  pushes the cells \<^verbatim>\<open>'0'\<close> onto the rows 0 to \<open>N - 1\<close> of the whole board: loading into an
  object that already holds a board never faults, makes each of the first \<open>N\<close> rows
  longer by \<open>M\<close> cells, writes the cells of the file over the first \<open>M\<close> cells of each
  of them, and leaves the board longer by \<open>N\<close> rows. \<open>N\<close> and \<open>M\<close> are the extents of the
  two size bytes of the file: the bytes as numbers where \<^verbatim>\<open>char\<close> is unsigned, and 0 for
  a byte of 128 or more where it is signed, so that such a file loads as an empty grid.
\<close>

theorem reload_grows_board:
  assumes "extent sg n * extent sg m \<le> length cells"
  shows "\<exists>cw'. load_grid sg (n # m # cells) cw = Inr cw' \<and>
     length (board cw') = length (board cw) + extent sg n \<and>
     (\<forall>r<extent sg n. length (board cw' ! r) =
        (if r < length (board cw) then length (board cw ! r) else 0) + extent sg m) \<and>
     (\<forall>r<extent sg n. \<forall>j<extent sg m. board cw' ! r ! j = remap (cells ! (r * extent sg m + j))) \<and>
     (\<forall>r. extent sg n \<le> r \<and> r < length (board cw) + extent sg n \<longrightarrow>
        board cw' ! r = (if r < length (board cw) then board cw ! r else []))"
  using load_grid_effect [OF assms, of cw] by (auto simp: grid_loaded_def)

theorem reload_grows_board_witness:
  "(\<exists>cw'. load_grid False [1, 2, 200, 201]
            \<lparr>N = 1, M = 2, board = [[202, 203]], areas = [], name = []\<rparr> = Inr cw'
      \<and> length (board cw') = 2 \<and> length (board cw' ! 0) = 4 \<and> board cw' ! 1 = [])
   \<and> (\<exists>cw'. load_grid True [200, 2] \<lparr>N = 1, M = 2, board = [], areas = [], name = []\<rparr> = Inr cw'
      \<and> board cw' = [])"
proof -
  let ?cw = "\<lparr>N = 1, M = 2, board = [[202, 203]], areas = [], name = []\<rparr>"
  from reload_grows_board [of False 1 2 "[200, 201]" ?cw] obtain cw' where
    l: "load_grid False [1, 2, 200, 201] ?cw = Inr cw'" "length (board cw') = 2"
    and r: "\<forall>r<extent False (1 :: byte). length (board cw' ! r) =
        (if r < length (board ?cw) then length (board ?cw ! r) else 0) + extent False (2 :: byte)"
    and t: "\<forall>r. extent False (1 :: byte) \<le> r \<and> r < length (board ?cw) + extent False (1 :: byte) \<longrightarrow>
        board cw' ! r = (if r < length (board ?cw) then board ?cw ! r else [])"
    by auto
  from r have "length (board cw' ! 0) = 4" by simp
  moreover from t have "board cw' ! 1 = []" by simp
  moreover from reload_grows_board [of True 200 2 "[]"
      "\<lparr>N = 1, M = 2, board = [], areas = [], name = []\<rparr>"]
  have "\<exists>cw'. load_grid True [200, 2] \<lparr>N = 1, M = 2, board = [], areas = [], name = []\<rparr> = Inr cw'
      \<and> board cw' = []"
    by (auto simp: extent_signed)
  ultimately show ?thesis using l by blast
qed

text \<open>
  The second half of \<^verbatim>\<open>load\<close>, in every state of the object: given an open file with
  enough cell bytes it returns, and the positions it stores are exactly the maximal runs
  of at least two cells in the rows and columns of the grid that the bytes of the
  file, remapped, describe, each of them once.
\<close>

lemma load_stream_slots:
  assumes "extent sg n * extent sg m \<le> length cells" and "\<And>xs. mset (sort_areas xs) = mset xs"
  shows "\<exists>cw'. load_stream sg isBox sort_areas (n # m # cells) cw = Inr cw' \<and>
     N cw' = n \<and> M cw' = m \<and>
     set (areas cw') =
       {hor_position (extent sg m) i s e | i s e.
          i < extent sg n \<and> slot (\<lambda>j. isBox (remap (cells ! (i * extent sg m + j)))) (extent sg m) s e} \<union>
       {ver_position (extent sg m) j s e | j s e.
          j < extent sg m \<and> slot (\<lambda>i. isBox (remap (cells ! (i * extent sg m + j)))) (extent sg n) s e} \<and>
     distinct (areas cw')"
proof -
  let ?N = "extent sg n" and ?M = "extent sg m"
  from load_grid_effect [OF assms(1), of cw] obtain b where
    g: "load_grid sg (n # m # cells) cw = Inr (cw\<lparr>N := n, M := m, board := b\<rparr>)"
    and b: "grid_loaded ?N ?M cells (board cw) b"
    by blast
  from loadWords_eq [OF grid_loaded_ok [OF b], of isBox sort_areas] obtain hs vs where
    l: "loadWords isBox sort_areas ?N ?M b = Inr (sort_areas (concat hs @ concat vs))"
    and h: "list_all2 (line_slots (row_box isBox b) (hor_position ?M) ?M) [0..<?N] hs"
    and v: "list_all2 (line_slots (col_box isBox b) (ver_position ?M) ?N) [0..<?M] vs"
    by blast
  have r: "slot (row_box isBox b i) ?M s e = slot (\<lambda>j. isBox (remap (cells ! (i * ?M + j)))) ?M s e"
    if "i < ?N" for i s e
    using that b by (intro slot_cong) (simp add: row_box_def grid_loaded_def)
  have c: "slot (col_box isBox b j) ?N s e = slot (\<lambda>i. isBox (remap (cells ! (i * ?M + j)))) ?N s e"
    if "j < ?M" for j s e
    using that b by (intro slot_cong) (simp add: col_box_def grid_loaded_def)
  have "set (sort_areas (concat hs @ concat vs)) = set (concat hs @ concat vs)"
    using assms(2) by (rule set_mset_eq_set)
  also have "\<dots> = {hor_position ?M i s e | i s e. i < ?N \<and> slot (row_box isBox b i) ?M s e} \<union>
      {ver_position ?M j s e | j s e. j < ?M \<and> slot (col_box isBox b j) ?N s e}"
    unfolding set_append set_line_slots [OF h] set_line_slots [OF v] ..
  finally have "set (sort_areas (concat hs @ concat vs)) =
      {hor_position ?M i s e | i s e. i < ?N \<and> slot (row_box isBox b i) ?M s e} \<union>
      {ver_position ?M j s e | j s e. j < ?M \<and> slot (col_box isBox b j) ?N s e}" .
  moreover have "distinct (sort_areas (concat hs @ concat vs))"
    using areas_distinct [OF h v] mset_eq_imp_distinct_iff [OF assms(2)] by simp
  ultimately show ?thesis using g l r c by (auto simp: load_stream_def)
qed

end
