(* ===== verification/Grid_Path.thy ===== *)
theory Grid_Path
  imports Environment Board_Slots
begin

text \<open>
  The first half of \<^verbatim>\<open>crossword::load\<close> (lines 32-47 of \<^verbatim>\<open>src/crossword.cpp\<close>): the two
  loops that ask the console for a path until a grid file can be opened, and the name of
  the grid, over the console and the file system of \<open>Environment\<close>. Both loops may run
  forever, so they return an option: \<open>None\<close> is a call that does not return.
\<close>

section \<open>Strings\<close>

text \<open>
  The difference of two values of \<^verbatim>\<open>size_t\<close> (64 bits), both below \<open>2 ^ 64\<close>.
\<close>

definition size_sub :: "nat \<Rightarrow> nat \<Rightarrow> nat" where
  "size_sub a b = (if a < b then a + 2 ^ 64 - b else a - b)"

text \<open>\<^verbatim>\<open>s.substr(pos, n)\<close> throws \<^verbatim>\<open>std::out_of_range\<close> when \<open>pos\<close> is beyond the size.\<close>

definition substr :: "nat \<Rightarrow> nat \<Rightarrow> string \<Rightarrow> grid_fault + string" where
  "substr pos n s = (if length s < pos then Inl SubstrOutOfRange else Inr (take n (drop pos s)))"

text \<open>\<^verbatim>\<open>tolower\<close> of the C locale.\<close>

definition tolower :: "char \<Rightarrow> char" where
  "tolower c = (let n = of_char c :: nat in if 65 \<le> n \<and> n \<le> 90 then char_of (n + 32) else c)"

text \<open>\<^verbatim>\<open>for (size_t i = 0; i < path.size(); i++) path[i] = tolower(path[i]);\<close>\<close>

definition lower :: "string \<Rightarrow> string" where
  "lower path = map tolower path"

text \<open>\<^verbatim>\<open>if (path.substr(path.size() - 4, 4) != ".ctb") path += ".ctb";\<close>\<close>

definition with_ctb :: "string \<Rightarrow> grid_fault + string" where
  "with_ctb path =
     (case substr (size_sub (length path) 4) 4 path of
        Inl e \<Rightarrow> Inl e
      | Inr s \<Rightarrow> Inr (if s \<noteq> ''.ctb'' then path @ ''.ctb'' else path))"

text \<open>\<^verbatim>\<open>name = path.substr(0, path.size() - 4);\<close>\<close>

definition name_of :: "string \<Rightarrow> grid_fault + string" where
  "name_of path = substr 0 (size_sub (length path) 4) path"

section \<open>The two loops\<close>

text \<open>\<^verbatim>\<open>while (path.size() < 5) { cout << "Invalid path. Try again:" << endl; cin >> path; }\<close>\<close>

partial_function (option) ask_path :: "console \<Rightarrow> string \<Rightarrow> (string \<times> console) option" where
  "ask_path c path =
     (if length path < 5
      then (case read_token (print_line ''Invalid path. Try again:'' c) path of
              (p, c') \<Rightarrow> ask_path c' p)
      else Some (path, c))"

declare ask_path.simps [code]

text \<open>
  The loop \<^verbatim>\<open>while (!fin.good())\<close> of lines 39-46; the stream is good exactly when the file
  could be opened. This reads \<^verbatim>\<open>fin.open\<close> as C++11 and later define it: an \<^verbatim>\<open>open\<close> that
  succeeds clears the state of the stream, so the \<^verbatim>\<open>failbit\<close> that an earlier failed
  \<^verbatim>\<open>open\<close> set does not survive it. Under C++03, where \<^verbatim>\<open>open\<close> leaves the state as it
  is, the loop would not end once it is entered.
\<close>

partial_function (option) reopen ::
  "files \<Rightarrow> console \<Rightarrow> string \<Rightarrow> (grid_fault + string \<times> byte list \<times> console) option" where
  "reopen fs c path =
     (case fs path of
        Some fin \<Rightarrow> Some (Inr (path, fin, c))
      | None \<Rightarrow>
          (case read_token (print_line (''Invalid path '' @ path @ ''. Try again:'') c) path of
             (p, c') \<Rightarrow>
               (case with_ctb p of
                  Inl e \<Rightarrow> Some (Inl e)
                | Inr p' \<Rightarrow> reopen fs c' p')))"

declare reopen.simps [code]

text \<open>Lines 32-46: the path that is opened, the bytes of its file and the console.\<close>

definition open_path ::
  "files \<Rightarrow> console \<Rightarrow> string \<Rightarrow> (grid_fault + string \<times> byte list \<times> console) option" where
  "open_path fs c path =
     (case ask_path c path of
        None \<Rightarrow> None
      | Some (p, c') \<Rightarrow>
          (case with_ctb (lower p) of
             Inl e \<Rightarrow> Some (Inl e)
           | Inr p' \<Rightarrow> reopen fs c' p'))"

section \<open>Reference: what the prompts accept\<close>

text \<open>The reply that ends the first loop is the first one of five characters or more.\<close>

abbreviation short :: "string \<Rightarrow> bool" where
  "short t \<equiv> length t < 5"

definition ask_line :: string where
  "ask_line = ''Invalid path. Try again:''"

definition retry_line :: "string \<Rightarrow> string" where
  "retry_line path = ''Invalid path '' @ path @ ''. Try again:''"

text \<open>
  A reply ends the second loop when it is too short for \<^verbatim>\<open>substr\<close> or when the file it
  names, with the extension, can be opened.
\<close>

definition ends_loop :: "files \<Rightarrow> string \<Rightarrow> bool" where
  "ends_loop fs t \<longleftrightarrow> (case with_ctb t of Inl e \<Rightarrow> True | Inr p \<Rightarrow> fs p \<noteq> None)"

definition has_ctb :: "string \<Rightarrow> bool" where
  "has_ctb p \<longleftrightarrow> 4 \<le> length p \<and> drop (length p - 4) p = ''.ctb''"

definition ctb :: "string \<Rightarrow> string" where
  "ctb t = (if has_ctb t then t else t @ ''.ctb'')"

text \<open>
  The paths that the second loop tried and printed, when it started with \<open>path\<close> and read
  the replies \<open>ts\<close>, and the path it holds after them.
\<close>

definition tried :: "string \<Rightarrow> string list \<Rightarrow> string list" where
  "tried path ts = butlast (path # map ctb ts)"

definition held :: "string \<Rightarrow> string list \<Rightarrow> string" where
  "held path ts = last (path # map ctb ts)"

section \<open>Strings: lemmas\<close>

lemma substr_tail:
  "substr (size_sub (length s) 4) 4 s =
     (if length s < 4 then Inl SubstrOutOfRange else Inr (drop (length s - 4) s))"
  by (auto simp: substr_def size_sub_def)

lemma with_ctb_eq:
  "with_ctb p =
     (if length p < 4 then Inl SubstrOutOfRange
      else Inr (if drop (length p - 4) p = ''.ctb'' then p else p @ ''.ctb''))"
  by (simp add: with_ctb_def substr_tail)

lemma with_ctb_short [simp]: "length p < 4 \<Longrightarrow> with_ctb p = Inl SubstrOutOfRange"
  by (simp add: with_ctb_eq)

lemma with_ctb_has [simp]: "has_ctb p \<Longrightarrow> with_ctb p = Inr p"
  by (simp add: with_ctb_eq has_ctb_def)

lemma has_ctb_append [simp]: "has_ctb (p @ ''.ctb'')"
  by (simp add: has_ctb_def)

lemma with_ctb_Inr: "with_ctb p = Inr p' \<Longrightarrow> has_ctb p' \<and> (p' = p \<or> p' = p @ ''.ctb'')"
  by (auto simp: with_ctb_eq has_ctb_def split: if_splits)

lemma with_ctb_Inl: "with_ctb p = Inl e \<longleftrightarrow> length p < 4 \<and> e = SubstrOutOfRange"
  by (auto simp: with_ctb_eq)

lemma name_of_ctb: "has_ctb p \<Longrightarrow> name_of p = Inr (take (length p - 4) p)"
  by (simp add: name_of_def substr_def size_sub_def has_ctb_def)

lemma name_of_append [simp]: "name_of (p @ ''.ctb'') = Inr p"
  by (simp add: name_of_ctb)

lemma length_lower [simp]: "length (lower p) = length p"
  by (simp add: lower_def)

text \<open>The facts that evaluate the operations on a literal path.\<close>

lemmas path_eval = lower_def tolower_def char_of_def bit_0 ctb_def has_ctb_def

section \<open>The first loop\<close>

lemma ask_path_long [simp]: "\<not> short path \<Longrightarrow> ask_path c path = Some (path, c)"
  by (simp add: ask_path.simps)

lemma ask_path_reply:
  "short path \<Longrightarrow> cin c = t # ts \<Longrightarrow>
   ask_path c path = ask_path \<lparr>cin = ts, cout = cout c @ [ask_line]\<rparr> t"
  by (subst ask_path.simps, cases c) (simp add: read_token_def print_line_def ask_line_def)

text \<open>At the end of the input the path stays as it is and the loop goes on.\<close>

lemma ask_path_eof:
  assumes "short path" "cin c = []"
  shows "ask_path c path = None"
proof (rule ccontr)
  assume "ask_path c path \<noteq> None"
  then obtain r where ret: "ask_path c path = Some r" by auto
  have "cin c = [] \<longrightarrow> \<not> short path"
  proof (rule ask_path.raw_induct [where P = "\<lambda>c path r. cin c = [] \<longrightarrow> \<not> short path", OF _ ret])
    fix f c path r
    assume IH: "\<And>c path r. f c path = Some r \<Longrightarrow> cin c = [] \<longrightarrow> \<not> short path"
      and eq: "(if short path
                then case read_token (print_line ''Invalid path. Try again:'' c) path of
                       (p, c') \<Rightarrow> f c' p
                else Some (path, c)) = Some r"
    show "cin c = [] \<longrightarrow> \<not> short path"
    proof (intro impI notI)
      assume e: "cin c = []" and s: "short path"
      with eq have "f (print_line ''Invalid path. Try again:'' c) path = Some r"
        by (simp add: read_token_def print_line_def)
      from IH [OF this] e s show False by (simp add: print_line_def)
    qed
  qed
  with assms show False by simp
qed

text \<open>The loop skips the short replies and stops at the first long one.\<close>

lemma ask_path_dropWhile:
  "short path \<Longrightarrow>
   ask_path c path =
     (case dropWhile short (cin c) of
        [] \<Rightarrow> None
      | t # ts \<Rightarrow>
          Some (t, \<lparr>cin = ts,
                    cout = cout c @ replicate (Suc (length (takeWhile short (cin c)))) ask_line\<rparr>))"
proof (induction "cin c" arbitrary: c path)
  case Nil
  then show ?case by (simp add: ask_path_eof)
next
  case (Cons t ts)
  let ?c = "\<lparr>cin = ts, cout = cout c @ [ask_line]\<rparr>"
  have step: "ask_path c path = ask_path ?c t"
    using Cons.prems Cons.hyps(2) by (simp add: ask_path_reply)
  show ?case
  proof (cases "short t")
    case True
    have "ask_path ?c t =
      (case dropWhile short ts of
         [] \<Rightarrow> None
       | t # ts' \<Rightarrow>
           Some (t, \<lparr>cin = ts',
                     cout = cout ?c @ replicate (Suc (length (takeWhile short ts))) ask_line\<rparr>))"
      using Cons.hyps(1) [of ?c t] True by (cases "dropWhile short ts") (simp_all del: dropWhile_eq_Nil_conv)
    then show ?thesis
      unfolding step using True Cons.hyps(2) [symmetric]
      by (cases "dropWhile short ts") (simp_all del: dropWhile_eq_Nil_conv)
  next
    case False
    then show ?thesis
      unfolding step using Cons.hyps(2) [symmetric] by simp
  qed
qed

lemma ask_path_skips:
  assumes "short path" "cin c = ts @ t # rest" "\<forall>s\<in>set ts. short s" "\<not> short t"
  shows "ask_path c path =
    Some (t, \<lparr>cin = rest, cout = cout c @ replicate (Suc (length ts)) ask_line\<rparr>)"
proof -
  from assms(3,4) have "dropWhile short (ts @ t # rest) = t # rest"
    and "takeWhile short (ts @ t # rest) = ts"
    by (simp_all add: dropWhile_append3 takeWhile_tail)
  with assms(1,2) show ?thesis by (simp add: ask_path_dropWhile)
qed

section \<open>The second loop\<close>

lemma with_ctb_ctb: "4 \<le> length t \<Longrightarrow> with_ctb t = Inr (ctb t)"
  by (simp add: with_ctb_eq ctb_def has_ctb_def)

lemma has_ctb_ctb [simp]: "has_ctb (ctb t)"
  by (simp add: ctb_def)

lemma ends_loop_iff: "ends_loop fs t \<longleftrightarrow> length t < 4 \<or> fs (ctb t) \<noteq> None"
  by (cases "length t < 4") (simp_all add: ends_loop_def with_ctb_ctb)

lemma tried_Cons [simp]: "tried path (t # ts) = path # tried (ctb t) ts"
  by (simp add: tried_def)

lemma held_Cons [simp]: "held path (t # ts) = held (ctb t) ts"
  by (simp add: held_def)

lemma tried_Nil [simp]: "tried path [] = []"
  by (simp add: tried_def)

lemma held_Nil [simp]: "held path [] = path"
  by (simp add: held_def)

lemma reopen_open [simp]: "fs path = Some fin \<Longrightarrow> reopen fs c path = Some (Inr (path, fin, c))"
  by (simp add: reopen.simps)

lemma reopen_reply:
  "fs path = None \<Longrightarrow> cin c = t # ts \<Longrightarrow>
   reopen fs c path =
     (case with_ctb t of
        Inl e \<Rightarrow> Some (Inl e)
      | Inr p \<Rightarrow> reopen fs \<lparr>cin = ts, cout = cout c @ [retry_line path]\<rparr> p)"
  by (subst reopen.simps, cases c)
    (simp add: read_token_def print_line_def retry_line_def cong: sum.case_cong)

text \<open>
  At the end of the input the path stays as it is; it has the extension already, so the
  same file is tried again, forever.
\<close>

lemma reopen_eof:
  assumes "fs path = None" "cin c = []" "has_ctb path"
  shows "reopen fs c path = None"
proof (rule ccontr)
  let ?P = "\<lambda>fs' c path (r :: grid_fault + string \<times> byte list \<times> console).
    fs' = fs \<and> cin c = [] \<and> has_ctb path \<longrightarrow> fs path \<noteq> None"
  assume "reopen fs c path \<noteq> None"
  then obtain r where ret: "reopen fs c path = Some r" by auto
  have "?P fs c path r"
  proof (rule reopen.raw_induct [where P = ?P, OF _ ret])
    fix f fs' c path r
    assume IH: "\<And>fs' c path r. f fs' c path = Some r \<Longrightarrow> ?P fs' c path r"
      and eq: "(case fs' path of
                  None \<Rightarrow>
                    (case read_token (print_line (''Invalid path '' @ path @ ''. Try again:'') c) path of
                       (p, c') \<Rightarrow>
                         (case with_ctb p of Inl e \<Rightarrow> Some (Inl e) | Inr p' \<Rightarrow> f fs' c' p'))
                | Some fin \<Rightarrow> Some (Inr (path, fin, c))) = Some r"
    show "?P fs' c path r"
    proof (intro impI notI, elim conjE)
      assume a: "fs' = fs" "cin c = []" "has_ctb path" "fs path = None"
      with eq have "f fs (print_line (''Invalid path '' @ path @ ''. Try again:'') c) path = Some r"
        by (simp add: read_token_def print_line_def)
      from IH [OF this] a show False by (simp add: print_line_def)
    qed
  qed
  with assms show False by simp
qed

text \<open>Replies that do not end the loop are skipped, each after a line on the console.\<close>

lemma reopen_skip:
  "fs path = None \<Longrightarrow> \<forall>t\<in>set ts. \<not> ends_loop fs t \<Longrightarrow> cin c = ts @ rest \<Longrightarrow>
   reopen fs c path =
     reopen fs \<lparr>cin = rest, cout = cout c @ map retry_line (tried path ts)\<rparr> (held path ts)
   \<and> fs (held path ts) = None"
proof (induction ts arbitrary: c path)
  case Nil
  then show ?case by (cases c) simp
next
  case (Cons t ts)
  from Cons.prems(2) have t: "with_ctb t = Inr (ctb t)" "fs (ctb t) = None"
    by (auto simp: ends_loop_iff with_ctb_ctb)
  let ?c = "\<lparr>cin = ts @ rest, cout = cout c @ [retry_line path]\<rparr>"
  have "reopen fs c path = reopen fs ?c (ctb t)"
    using Cons.prems(1,3) t by (simp add: reopen_reply)
  with Cons.IH [of "ctb t" ?c] t Cons.prems(2) show ?case by simp
qed

lemma has_ctb_held: "has_ctb path \<Longrightarrow> has_ctb (held path ts)"
  by (induction ts arbitrary: path) simp_all

lemma tried_snoc: "tried path (ts @ [t]) = path # map ctb ts"
  by (simp add: tried_def butlast_append)

lemma reopen_none:
  assumes "has_ctb path" "fs path = None" "\<forall>t\<in>set (cin c). \<not> ends_loop fs t"
  shows "reopen fs c path = None"
  using reopen_skip [OF assms(2,3), where rest = "[]"] has_ctb_held [OF assms(1), of "cin c"]
  by (simp add: reopen_eof)

lemma reopen_accepts:
  assumes "fs path = None" "cin c = ts @ t # rest" "\<forall>s\<in>set ts. \<not> ends_loop fs s"
    and "4 \<le> length t" "fs (ctb t) = Some fin"
  shows "reopen fs c path =
    Some (Inr (ctb t, fin, \<lparr>cin = rest, cout = cout c @ map retry_line (path # map ctb ts)\<rparr>))"
proof -
  let ?c = "\<lparr>cin = t # rest, cout = cout c @ map retry_line (tried path ts)\<rparr>"
  from reopen_skip [OF assms(1,3,2)]
  have "reopen fs c path = reopen fs ?c (held path ts)" and "fs (held path ts) = None"
    by simp_all
  moreover have "tried path ts @ [held path ts] = path # map ctb ts"
    by (simp add: tried_def held_def)
  from arg_cong [OF this, of "map retry_line"]
  have "map retry_line (tried path ts) @ [retry_line (held path ts)] =
    map retry_line (path # map ctb ts)"
    by simp
  ultimately show ?thesis
    using assms(4,5) by (simp add: reopen_reply with_ctb_ctb)
qed

lemma reopen_throws:
  assumes "fs path = None" "cin c = ts @ t # rest" "\<forall>s\<in>set ts. \<not> ends_loop fs s"
    and "length t < 4"
  shows "reopen fs c path = Some (Inl SubstrOutOfRange)"
  using reopen_skip [OF assms(1,3,2)] assms(4) by (simp add: reopen_reply)

lemma reopen_ends:
  assumes "fs path = None" "t \<in> set (cin c)" "ends_loop fs t"
  shows "\<exists>r. reopen fs c path = Some r"
proof -
  from assms(2,3) obtain ts t' rest where
    sp: "cin c = ts @ t' # rest" "ends_loop fs t'" "\<forall>s\<in>set ts. \<not> ends_loop fs s"
    using split_list_first_prop [of "cin c" "ends_loop fs"] by blast
  show ?thesis
  proof (cases "length t' < 4")
    case True
    with reopen_throws [OF assms(1) sp(1,3)] show ?thesis by simp
  next
    case False
    with sp(2) obtain fin where "fs (ctb t') = Some fin" by (auto simp: ends_loop_iff)
    with reopen_accepts [OF assms(1) sp(1,3)] False show ?thesis by simp
  qed
qed

section \<open>Both loops\<close>

lemma open_path_long:
  "\<not> short path \<Longrightarrow> open_path fs c path = reopen fs c (ctb (lower path))"
  by (simp add: open_path_def with_ctb_ctb)

lemma open_path_direct:
  "\<not> short path \<Longrightarrow> fs (ctb (lower path)) = Some fin \<Longrightarrow>
   open_path fs c path = Some (Inr (ctb (lower path), fin, c))"
  by (simp add: open_path_long)

lemma open_path_asked:
  assumes "short path" "cin c = ts @ t # rest" "\<forall>s\<in>set ts. short s" "\<not> short t"
  shows "open_path fs c path =
    reopen fs \<lparr>cin = rest, cout = cout c @ replicate (Suc (length ts)) ask_line\<rparr> (ctb (lower t))"
  using assms(4) by (simp add: open_path_def ask_path_skips [OF assms] with_ctb_ctb)

lemma open_path_eof:
  assumes "cin c = []" "short path \<or> fs (ctb (lower path)) = None"
  shows "open_path fs c path = None"
proof (cases "short path")
  case True
  with assms(1) show ?thesis by (simp add: open_path_def ask_path_eof)
next
  case False
  with assms show ?thesis by (simp add: open_path_long reopen_eof)
qed

section \<open>Termination of the first loop\<close>

text \<open>
  C19 (termination). The first loop of \<^verbatim>\<open>crossword::load\<close> returns exactly when the path it
  is given has five characters or more, or the input still holds a reply that long; with
  neither it runs forever.
\<close>

theorem ask_path_returns_iff:
  "(\<exists>r. ask_path c path = Some r) \<longleftrightarrow> \<not> short path \<or> (\<exists>t\<in>set (cin c). \<not> short t)"
proof (cases "short path")
  case True
  have "(dropWhile short (cin c) = []) \<longleftrightarrow> \<not> (\<exists>t\<in>set (cin c). \<not> short t)"
    by simp
  with True show ?thesis
    by (cases "dropWhile short (cin c)") (simp_all add: ask_path_dropWhile del: dropWhile_eq_Nil_conv)
next
  case False
  then show ?thesis by simp
qed

theorem ask_path_returns_iff_witness:
  "(\<exists>r. ask_path \<lparr>cin = [''ab'', ''grid1'', ''x''], cout = []\<rparr> ''b'' = Some r) \<and>
   ask_path \<lparr>cin = [''ab'', ''c''], cout = []\<rparr> ''b'' = None"
  using ask_path_returns_iff [of "\<lparr>cin = [''ab'', ''grid1'', ''x''], cout = []\<rparr>" "''b''"]
    ask_path_returns_iff [of "\<lparr>cin = [''ab'', ''c''], cout = []\<rparr>" "''b''"]
  by fastforce

section \<open>The second loop returns when a reply can end it\<close>

text \<open>
  Called with a path that has the extension, the second loop returns
  exactly when that file can be opened or some reply still in the input ends the loop: a
  reply of fewer than four characters, or one that names a file that can be opened.
\<close>

lemma reopen_Some_iff:
  assumes "has_ctb path"
  shows "(\<exists>r. reopen fs c path = Some r) \<longleftrightarrow>
    fs path \<noteq> None \<or> (\<exists>t\<in>set (cin c). ends_loop fs t)"
proof (cases "fs path")
  case None
  show ?thesis
  proof (cases "\<exists>t\<in>set (cin c). ends_loop fs t")
    case True
    with None reopen_ends [of fs path _ c] show ?thesis by blast
  next
    case False
    with None reopen_none [OF assms, of fs c] show ?thesis by simp
  qed
next
  case (Some fin)
  then show ?thesis by simp
qed

lemma reopen_Some_iff_example:
  "has_ctb ''a.ctb'' \<and>
   (\<exists>r. reopen [''b.ctb'' \<mapsto> [1, 1, 48]] \<lparr>cin = [''zzzz'', ''b.ctb''], cout = []\<rparr> ''a.ctb'' = Some r) \<and>
   reopen [''b.ctb'' \<mapsto> [1, 1, 48]] \<lparr>cin = [''zzzz''], cout = []\<rparr> ''a.ctb'' = None"
  using reopen_Some_iff [of "''a.ctb''" "[''b.ctb'' \<mapsto> [1, 1, 48]]"
      "\<lparr>cin = [''zzzz'', ''b.ctb''], cout = []\<rparr>"]
    reopen_Some_iff [of "''a.ctb''" "[''b.ctb'' \<mapsto> [1, 1, 48]]"
      "\<lparr>cin = [''zzzz''], cout = []\<rparr>"]
  by (simp add: has_ctb_def ends_loop_iff ctb_def)

lemma open_path_Some_iff:
  "(\<exists>r. open_path fs c path = Some r) \<longleftrightarrow>
     (case dropWhile short (path # cin c) of
        [] \<Rightarrow> False
      | p # rest \<Rightarrow> fs (ctb (lower p)) \<noteq> None \<or> (\<exists>t\<in>set rest. ends_loop fs t))"
proof (cases "short path")
  case True
  show ?thesis
  proof (cases "dropWhile short (cin c)")
    case Nil
    with True show ?thesis
      by (simp add: open_path_def ask_path_dropWhile del: dropWhile_eq_Nil_conv)
  next
    case (Cons p rest)
    then have "\<not> short p" by (metis hd_dropWhile list.sel(1) list.distinct(1))
    with True Cons reopen_Some_iff [of "ctb (lower p)" fs] show ?thesis
      by (simp add: open_path_def ask_path_dropWhile with_ctb_ctb del: dropWhile_eq_Nil_conv)
  qed
next
  case False
  with reopen_Some_iff [of "ctb (lower path)" fs c] show ?thesis
    by (simp add: open_path_long)
qed

section \<open>What a loop that returns has done\<close>

text \<open>
  Facts about every result of the loops, by induction over the unfoldings of the loop
  (the rule \<open>raw_induct\<close> of a partial function).
\<close>

lemma ask_path_safe:
  assumes "ask_path c path = Some (p, c')"
  shows "\<not> short p \<and> advanced c c'"
proof -
  have "\<not> short (fst r) \<and> advanced c (snd r)" if "ask_path c path = Some r" for r
  proof (rule ask_path.raw_induct [where P = "\<lambda>c path r. \<not> short (fst r) \<and> advanced c (snd r)", OF _ that])
    fix f c path r
    assume IH: "\<And>c path r. f c path = Some r \<Longrightarrow> \<not> short (fst r) \<and> advanced c (snd r)"
      and eq: "(if short path
                then case read_token (print_line ''Invalid path. Try again:'' c) path of
                       (p, c') \<Rightarrow> f c' p
                else Some (path, c)) = Some r"
    show "\<not> short (fst r) \<and> advanced c (snd r)"
    proof (cases "short path")
      case True
      obtain p c1 where t: "read_token (print_line ''Invalid path. Try again:'' c) path = (p, c1)"
        by (cases "read_token (print_line ''Invalid path. Try again:'' c) path")
      with eq True have "f c1 p = Some r" by simp
      from IH [OF this] advanced_read [of c "''Invalid path. Try again:''" path] t show ?thesis
        by (auto intro: advanced_trans)
    next
      case False
      with eq show ?thesis by auto
    qed
  qed
  from this [OF assms] show ?thesis by simp
qed

lemma reopen_safe:
  assumes "reopen fs c path = Some (Inr (p, fin, c'))" and "has_ctb path"
  shows "has_ctb p \<and> fs p = Some fin \<and> advanced c c'"
proof -
  let ?P = "\<lambda>fs c path (r :: grid_fault + string \<times> byte list \<times> console). has_ctb path \<longrightarrow>
    (case r of Inl e \<Rightarrow> True | Inr (p, fin, c') \<Rightarrow> has_ctb p \<and> fs p = Some fin \<and> advanced c c')"
  have "?P fs c path (Inr (p, fin, c'))"
  proof (rule reopen.raw_induct [where P = ?P, OF _ assms(1)])
    fix f fs c path r
    assume IH: "\<And>fs c path r. f fs c path = Some r \<Longrightarrow> ?P fs c path r"
      and eq: "(case fs path of
                  None \<Rightarrow>
                    (case read_token (print_line (''Invalid path '' @ path @ ''. Try again:'') c) path of
                       (p, c') \<Rightarrow>
                         (case with_ctb p of Inl e \<Rightarrow> Some (Inl e) | Inr p' \<Rightarrow> f fs c' p'))
                | Some fin \<Rightarrow> Some (Inr (path, fin, c))) = Some r"
    show "?P fs c path r"
    proof (cases "fs path")
      case None
      let ?l = "''Invalid path '' @ path @ ''. Try again:''"
      obtain p c1 where t: "read_token (print_line ?l c) path = (p, c1)"
        by (cases "read_token (print_line ?l c) path")
      show ?thesis
      proof (cases "with_ctb p")
        case (Inl e)
        with eq None t show ?thesis by auto
      next
        case (Inr p')
        with eq None t have "f fs c1 p' = Some r" by simp
        from IH [OF this] with_ctb_Inr [OF Inr] advanced_read [of c ?l path] t show ?thesis
          by (auto split: sum.splits intro: advanced_trans)
      qed
    next
      case (Some fin)
      with eq show ?thesis by auto
    qed
  qed
  with assms(2) show ?thesis by simp
qed

lemma open_path_safe:
  assumes "open_path fs c path = Some (Inr (p, fin, c'))"
  shows "has_ctb p \<and> fs p = Some fin \<and> advanced c c'"
proof -
  from assms obtain p0 c0 p1 where a: "ask_path c path = Some (p0, c0)"
    and w: "with_ctb (lower p0) = Inr p1" and r: "reopen fs c0 p1 = Some (Inr (p, fin, c'))"
    by (auto simp: open_path_def split: option.splits sum.splits)
  from reopen_safe [OF r] with_ctb_Inr [OF w] ask_path_safe [OF a] show ?thesis
    by (auto intro: advanced_trans)
qed

end
