(* ===== verification/Board_Load.thy ===== *)
theory Board_Load
  imports Board_Grid Grid_Path
begin

text \<open>
  \<^verbatim>\<open>crossword::load\<close> as a whole (lines 31-65 of \<^verbatim>\<open>src/crossword.cpp\<close>): the prompts for
  a path of \<open>Grid_Path\<close>, the name of the grid, the file read into the board and
  the slots of \<open>Board_Grid\<close>, and the board as it is printed while it is read.
  The result is \<open>None\<close> when the call does not return, a fault when it throws or reads
  what it may not, and the object with the console otherwise. The first parameter \<open>sg\<close>
  says whether \<^verbatim>\<open>char\<close> is signed, as in \<open>Board_Grid\<close>.
\<close>

section \<open>The printed board\<close>

text \<open>\<^verbatim>\<open>cout << (isBox(board[i][j]) ? uc('|') : board[i][j]) << " ";\<close>\<close>

definition show_cell :: "(byte \<Rightarrow> bool) \<Rightarrow> byte \<Rightarrow> string" where
  "show_cell isBox c = [if isBox c then CHR ''|'' else char_of (unat c), CHR '' '']"

text \<open>
  Every cell is printed right after it is stored and is not written again, so the lines
  that a load that returns has printed are a function of the board it leaves: one line
  for each of the rows \<open>0\<close> to \<open>N - 1\<close>, with the cells \<open>0\<close> to \<open>M - 1\<close>, where \<open>N\<close> and \<open>M\<close>
  are the extents of the size bytes.
\<close>

definition show_board :: "bool \<Rightarrow> (byte \<Rightarrow> bool) \<Rightarrow> crossword \<Rightarrow> string list" where
  "show_board sg isBox cw =
     map (\<lambda>row. concat (map (show_cell isBox) (take (extent sg (M cw)) row)))
       (take (extent sg (N cw)) (board cw))"

section \<open>The member function\<close>

definition load ::
  "bool \<Rightarrow> (byte \<Rightarrow> bool) \<Rightarrow> (position list \<Rightarrow> position list) \<Rightarrow> files \<Rightarrow> console \<Rightarrow> string
     \<Rightarrow> crossword \<Rightarrow> (grid_fault + crossword \<times> console) option" where
  "load sg isBox sort_areas fs c path cw =
     (case open_path fs c path of
        None \<Rightarrow> None
      | Some (Inl e) \<Rightarrow> Some (Inl e)
      | Some (Inr (p, fin, c')) \<Rightarrow>
          Some (case name_of p of
                  Inl e \<Rightarrow> Inl e
                | Inr nm \<Rightarrow>
                    (case load_stream sg isBox sort_areas fin (cw\<lparr>name := nm\<rparr>) of
                       Inl e \<Rightarrow> Inl e
                     | Inr cw' \<Rightarrow> Inr (cw', c'\<lparr>cout := cout c' @ show_board sg isBox cw'\<rparr>))))"

text \<open>The name that \<^verbatim>\<open>load\<close> gives the grid for a path or a reply \<open>t\<close>.\<close>

definition stem :: "string \<Rightarrow> string" where
  "stem t = (if has_ctb t then take (length t - 4) t else t)"

section \<open>Lemmas\<close>

lemma name_of_ctb_stem [simp]: "name_of (ctb t) = Inr (stem t)"
  by (simp add: ctb_def stem_def name_of_ctb)

lemma load_opened:
  "open_path fs c path = Some (Inr (ctb t, fin, c')) \<Longrightarrow>
   load sg isBox sort_areas fs c path cw =
     Some (case load_stream sg isBox sort_areas fin (cw\<lparr>name := stem t\<rparr>) of
             Inl e \<Rightarrow> Inl e
           | Inr cw' \<Rightarrow> Inr (cw', c'\<lparr>cout := cout c' @ show_board sg isBox cw'\<rparr>))"
  by (simp add: load_def)

lemma load_stream_name:
  "load_stream sg isBox sort_areas fin cw = Inr cw' \<Longrightarrow> name cw' = name cw"
  by (auto simp: load_stream_def load_grid_def Let_def split: sum.splits list.splits prod.splits)

section \<open>A path that can be opened\<close>

text \<open>
  Given a path of five characters or more that names, in lower case and
  with the extension \<^verbatim>\<open>.ctb\<close>, a file that can be opened, \<^verbatim>\<open>load\<close> asks nothing: it names the
  grid after the path without the extension, reads the file, and prints the board; it
  fails exactly when reading the open file fails.
\<close>

theorem load_good_path:
  assumes "\<not> short path" "fs (ctb (lower path)) = Some fin"
  shows "load sg isBox sort_areas fs c path cw =
     Some (case load_stream sg isBox sort_areas fin (cw\<lparr>name := stem (lower path)\<rparr>) of
             Inl e \<Rightarrow> Inl e
           | Inr cw' \<Rightarrow> Inr (cw', c\<lparr>cout := cout c @ show_board sg isBox cw'\<rparr>))"
  using assms open_path_direct [of path fs fin c] by (simp add: load_opened)

theorem load_good_path_witness:
  "load False (\<lambda>c. c = 48) id [''grid1.ctb'' \<mapsto> [1, 2, 140, 48]] \<lparr>cin = [], cout = []\<rparr> ''GRID1''
     (new_crossword 0 0) =
   Some (case load_stream False (\<lambda>c. c = 48) id [1, 2, 140, 48] ((new_crossword 0 0)\<lparr>name := ''grid1''\<rparr>) of
           Inl e \<Rightarrow> Inl e
         | Inr cw' \<Rightarrow> Inr (cw', \<lparr>cin = [], cout = show_board False (\<lambda>c. c = 48) cw'\<rparr>))"
  using load_good_path [of "''GRID1''" "[''grid1.ctb'' \<mapsto> [1, 2, 140, 48]]" "[1, 2, 140, 48]"
      False "\<lambda>c. c = 48" id "\<lparr>cin = [], cout = []\<rparr>" "new_crossword 0 0"]
  by (simp add: path_eval stem_def cong: sum.case_cong)

section \<open>When a load returns\<close>

text \<open>
  C12 (liveness). \<^verbatim>\<open>load\<close> returns, with the grid or with a fault, exactly when the path or
  a reply is long enough for the first prompt (five characters) and, after the first such
  path in the input, either its file, in lower case and with the extension, can be opened,
  or some later reply ends the second prompt: a reply of fewer than four characters, or
  one that names a file that can be opened. In every other case, among them the end of
  the input, the call never returns.
\<close>

theorem load_returns_iff:
  "(\<exists>r. load sg isBox sort_areas fs c path cw = Some r) \<longleftrightarrow>
     (case dropWhile short (path # cin c) of
        [] \<Rightarrow> False
      | p # rest \<Rightarrow> fs (ctb (lower p)) \<noteq> None \<or> (\<exists>t\<in>set rest. ends_loop fs t))"
proof -
  have "(\<exists>r. load sg isBox sort_areas fs c path cw = Some r) \<longleftrightarrow>
      (\<exists>r. open_path fs c path = Some r)"
    by (auto simp: load_def split: option.splits sum.splits)
  then show ?thesis by (simp only: open_path_Some_iff)
qed

text \<open>At the end of the input \<^verbatim>\<open>load\<close> returns only if it has nothing to ask.\<close>

theorem load_hangs_at_eof:
  assumes "cin c = []" "short path \<or> fs (ctb (lower path)) = None"
  shows "load sg isBox sort_areas fs c path cw = None"
  using assms open_path_eof [of c path fs] by (simp add: load_def)

theorem load_returns_iff_witness:
  "load False (\<lambda>c. c = 48) id Map.empty \<lparr>cin = [], cout = []\<rparr> ''grid1'' (new_crossword 0 0) = None \<and>
   (\<exists>r. load False (\<lambda>c. c = 48) id [''grid2.ctb'' \<mapsto> [0, 0]] \<lparr>cin = [''grid2''], cout = []\<rparr> ''grid1''
          (new_crossword 0 0) = Some r)"
  using load_returns_iff [of False "\<lambda>c. c = 48" id Map.empty "\<lparr>cin = [], cout = []\<rparr>" "''grid1''" "new_crossword 0 0"]
    load_returns_iff [of False "\<lambda>c. c = 48" id "[''grid2.ctb'' \<mapsto> [0, 0]]"
      "\<lparr>cin = [''grid2''], cout = []\<rparr>" "''grid1''" "new_crossword 0 0"]
  by (auto simp: path_eval ends_loop_iff)

section \<open>A short reply\<close>

text \<open>
  C25 (error). The first prompt rejects a path of fewer than five characters, the second
  does not: when the file of the path cannot be opened and the reply to the prompt has
  fewer than four characters, \<^verbatim>\<open>substr\<close> throws and \<^verbatim>\<open>load\<close> ends with the exception.
\<close>

theorem short_reply_throws:
  assumes "\<not> short path" "fs (ctb (lower path)) = None" "cin c = t # ts" "length t < 4"
  shows "load sg isBox sort_areas fs c path cw = Some (Inl SubstrOutOfRange)"
  using assms reopen_throws [of fs "ctb (lower path)" c "[]" t ts]
  by (simp add: load_def open_path_long)

theorem short_reply_throws_witness:
  "load False (\<lambda>c. c = 48) id Map.empty \<lparr>cin = [''abc''], cout = []\<rparr> ''grid1'' (new_crossword 0 0) =
     Some (Inl SubstrOutOfRange)"
  using short_reply_throws [of "''grid1''" Map.empty "\<lparr>cin = [''abc''], cout = []\<rparr>" "''abc''" "[]"]
  by simp

section \<open>Replies to the second prompt\<close>

text \<open>
  C28 (functional). When the file of the path cannot be opened, \<^verbatim>\<open>load\<close> prints the path
  it tried and reads a reply, again and again. It opens the first reply whose file, with
  the extension appended if it lacks it, can be opened; replies are taken as typed, not in
  lower case; the grid is named after the reply that was opened.
\<close>

theorem load_retries:
  assumes "\<not> short path" "fs (ctb (lower path)) = None"
    and "cin c = ts @ t # rest" "\<forall>s\<in>set ts. \<not> ends_loop fs s"
    and "4 \<le> length t" "fs (ctb t) = Some fin"
  shows "load sg isBox sort_areas fs c path cw =
     Some (case load_stream sg isBox sort_areas fin (cw\<lparr>name := stem t\<rparr>) of
             Inl e \<Rightarrow> Inl e
           | Inr cw' \<Rightarrow>
               Inr (cw', \<lparr>cin = rest,
                          cout = cout c @ map retry_line (ctb (lower path) # map ctb ts)
                                   @ show_board sg isBox cw'\<rparr>))"
  using assms(1) reopen_accepts [OF assms(2-6)]
  by (simp add: load_opened open_path_long cong: sum.case_cong)

theorem load_retries_witness:
  "load False (\<lambda>c. c = 48) id [''Grid2.ctb'' \<mapsto> [1, 2, 140, 48]]
     \<lparr>cin = [''grid2'', ''Grid2'', ''x''], cout = []\<rparr> ''GRID1'' (new_crossword 0 0) =
   Some (case load_stream False (\<lambda>c. c = 48) id [1, 2, 140, 48] ((new_crossword 0 0)\<lparr>name := ''Grid2''\<rparr>) of
           Inl e \<Rightarrow> Inl e
         | Inr cw' \<Rightarrow>
             Inr (cw', \<lparr>cin = [''x''],
                        cout = [''Invalid path grid1.ctb. Try again:'',
                                ''Invalid path grid2.ctb. Try again:'']
                                 @ show_board False (\<lambda>c. c = 48) cw'\<rparr>))"
  using load_retries [of "''GRID1''" "[''Grid2.ctb'' \<mapsto> [1, 2, 140, 48]]"
      "\<lparr>cin = [''grid2'', ''Grid2'', ''x''], cout = []\<rparr>" "[''grid2'']" "''Grid2''" "[''x'']"
      "[1, 2, 140, 48]" False "\<lambda>c. c = 48" id "new_crossword 0 0"]
  by (simp add: path_eval stem_def ends_loop_iff retry_line_def cong: sum.case_cong)

section \<open>From the prompt to the slots\<close>

text \<open>
  C9 (refinement). End to end, in every state of the object: asked to load a path that is
  too short, \<^verbatim>\<open>load\<close> prompts until a reply has five characters; if that reply, in lower
  case and with the extension, names a file with enough cell bytes, the call returns, the
  grid has the name of the reply and the size bytes of the file, and the positions it
  stores are exactly the maximal runs of at least two cells in the rows and columns of the
  grid that the bytes of the file, remapped, describe, each of them once. The grid has as
  many rows and columns as the extents of the size bytes say: the bytes as numbers where
  \<^verbatim>\<open>char\<close> is unsigned, and none for a byte of 128 or more where it is signed.
\<close>

theorem load_extracts_slots:
  assumes "short path" "cin c = ts @ t # rest" "\<forall>s\<in>set ts. short s" "\<not> short t"
    and "fs (ctb (lower t)) = Some (n # m # cells)" "extent sg n * extent sg m \<le> length cells"
    and "\<And>xs. mset (sort_areas xs) = mset xs"
  shows "\<exists>cw'. load sg isBox sort_areas fs c path cw =
       Some (Inr (cw', \<lparr>cin = rest,
                         cout = cout c @ replicate (Suc (length ts)) ask_line
                                  @ show_board sg isBox cw'\<rparr>)) \<and>
     name cw' = stem (lower t) \<and> N cw' = n \<and> M cw' = m \<and>
     set (areas cw') =
       {hor_position (extent sg m) i s e | i s e.
          i < extent sg n \<and> slot (\<lambda>j. isBox (remap (cells ! (i * extent sg m + j)))) (extent sg m) s e} \<union>
       {ver_position (extent sg m) j s e | j s e.
          j < extent sg m \<and> slot (\<lambda>i. isBox (remap (cells ! (i * extent sg m + j)))) (extent sg n) s e} \<and>
     distinct (areas cw')"
proof -
  let ?c = "\<lparr>cin = rest, cout = cout c @ replicate (Suc (length ts)) ask_line\<rparr>"
  have "open_path fs c path = Some (Inr (ctb (lower t), n # m # cells, ?c))"
    using assms(5) by (simp add: open_path_asked [OF assms(1-4)])
  from load_opened [OF this]
  have l: "load sg isBox sort_areas fs c path cw =
     Some (case load_stream sg isBox sort_areas (n # m # cells) (cw\<lparr>name := stem (lower t)\<rparr>) of
             Inl e \<Rightarrow> Inl e
           | Inr cw' \<Rightarrow> Inr (cw', ?c\<lparr>cout := cout ?c @ show_board sg isBox cw'\<rparr>))" .
  from load_stream_slots [OF assms(6,7), of isBox "cw\<lparr>name := stem (lower t)\<rparr>"]
  obtain cw' where
    s: "load_stream sg isBox sort_areas (n # m # cells) (cw\<lparr>name := stem (lower t)\<rparr>) = Inr cw'"
    and rest: "N cw' = n" "M cw' = m"
      "set (areas cw') =
       {hor_position (extent sg m) i s e | i s e.
          i < extent sg n \<and> slot (\<lambda>j. isBox (remap (cells ! (i * extent sg m + j)))) (extent sg m) s e} \<union>
       {ver_position (extent sg m) j s e | j s e.
          j < extent sg m \<and> slot (\<lambda>i. isBox (remap (cells ! (i * extent sg m + j)))) (extent sg n) s e}"
      "distinct (areas cw')"
    by blast
  from load_stream_name [OF s] have "name cw' = stem (lower t)" by simp
  with l s rest show ?thesis by simp
qed

theorem load_extracts_slots_witness:
  "\<exists>cw'. load False (\<lambda>c. c = 48) id [''grid1.ctb'' \<mapsto> [1, 2, 140, 141]]
       \<lparr>cin = [''g'', ''GRID1''], cout = []\<rparr> [] (new_crossword 0 0) =
       Some (Inr (cw', \<lparr>cin = [], cout = [ask_line, ask_line] @ show_board False (\<lambda>c. c = 48) cw'\<rparr>)) \<and>
     name cw' = ''grid1'' \<and> N cw' = 1 \<and> M cw' = 2 \<and> hor_position 2 0 0 2 \<in> set (areas cw')"
proof -
  let ?fs = "[''grid1.ctb'' \<mapsto> [1, 2, 140, 141 :: byte]]"
  let ?c = "\<lparr>cin = [''g'', ''GRID1''], cout = []\<rparr>"
  have sl: "slot (\<lambda>j. remap ([140, 141] ! (0 * extent False (2 :: byte) + j)) = 48) (extent False (2 :: byte)) 0 2"
    by (auto simp: slot_def remap_eq less_2_cases_iff)
  have f: "?fs (ctb (lower ''GRID1'')) = Some [1, 2, 140, 141]"
    and n: "stem (lower ''GRID1'') = ''grid1''"
    by (simp_all add: path_eval stem_def)
  from load_extracts_slots [where path = "[]" and c = ?c and ts = "[''g'']" and t = "''GRID1''"
      and rest = "[]" and fs = ?fs and n = 1 and m = 2 and sg = False and cells = "[140, 141]"
      and sort_areas = id and isBox = "\<lambda>c. c = 48" and cw = "new_crossword 0 0", unfolded n] f
  obtain cw' where
    l: "load False (\<lambda>c. c = 48) id ?fs ?c [] (new_crossword 0 0) =
       Some (Inr (cw', \<lparr>cin = [], cout = [ask_line, ask_line] @ show_board False (\<lambda>c. c = 48) cw'\<rparr>))"
      "name cw' = ''grid1''" "N cw' = 1" "M cw' = 2"
    and a: "set (areas cw') =
       {hor_position (extent False (2 :: byte)) i s e | i s e.
          i < extent False (1 :: byte) \<and> slot (\<lambda>j. remap ([140, 141] ! (i * extent False (2 :: byte) + j)) = 48) (extent False (2 :: byte)) s e} \<union>
       {ver_position (extent False (2 :: byte)) j s e | j s e.
          j < extent False (2 :: byte) \<and> slot (\<lambda>i. remap ([140, 141] ! (i * extent False (2 :: byte) + j)) = 48) (extent False (1 :: byte)) s e}"
    by auto
  have "0 < extent False (1 :: byte)" by simp
  with sl have "hor_position (extent False (2 :: byte)) 0 0 2 \<in> set (areas cw')"
    unfolding a by blast
  with l show ?thesis by simp
qed

section \<open>What a load that returns has read\<close>

text \<open>
  C32 (safety). Whatever the dialogue was, a load that returns with a grid has read a file
  that exists and whose path ends in \<^verbatim>\<open>.ctb\<close>, has named the grid after that path without
  the extension, has left the object as reading that file leaves it, has taken its
  replies from the front of the input, and has only added lines to the output.
\<close>

theorem load_reads_ctb_file:
  assumes "load sg isBox sort_areas fs c path cw = Some (Inr (cw', c'))"
  shows "\<exists>p fin. has_ctb p \<and> fs p = Some fin \<and> name cw' = take (length p - 4) p \<and>
     load_stream sg isBox sort_areas fin (cw\<lparr>name := take (length p - 4) p\<rparr>) = Inr cw' \<and>
     advanced c c'"
proof -
  from assms obtain p fin c1 nm where o: "open_path fs c path = Some (Inr (p, fin, c1))"
    and n: "name_of p = Inr nm"
    and l: "load_stream sg isBox sort_areas fin (cw\<lparr>name := nm\<rparr>) = Inr cw'"
    and c': "c' = c1\<lparr>cout := cout c1 @ show_board sg isBox cw'\<rparr>"
    by (auto simp: load_def split: option.splits sum.splits)
  from open_path_safe [OF o] have s: "has_ctb p" "fs p = Some fin" "advanced c c1" by simp_all
  from n s(1) have nm: "nm = take (length p - 4) p" by (simp add: name_of_ctb)
  from s(3) have "advanced c c'" unfolding c' by (rule advanced_trans) simp
  with s(1,2) l load_stream_name [OF l] nm show ?thesis by auto
qed

theorem load_reads_ctb_file_witness:
  "\<exists>cw' c' p fin.
     load False (\<lambda>c. c = 48) id [''grid1.ctb'' \<mapsto> [1, 2, 140, 141]] \<lparr>cin = [''x''], cout = []\<rparr> ''GRID1''
       (new_crossword 0 0) = Some (Inr (cw', c')) \<and>
     has_ctb p \<and> [''grid1.ctb'' \<mapsto> [1, 2, 140, 141 :: byte]] p = Some fin \<and>
     name cw' = take (length p - 4) p \<and> advanced \<lparr>cin = [''x''], cout = []\<rparr> c'"
proof -
  let ?fs = "[''grid1.ctb'' \<mapsto> [1, 2, 140, 141 :: byte]]"
  let ?c = "\<lparr>cin = [''x''], cout = []\<rparr>"
  let ?cw = "(new_crossword 0 0)\<lparr>name := stem (lower ''GRID1'')\<rparr>"
  have f: "?fs (ctb (lower ''GRID1'')) = Some [1, 2, 140, 141]" by (simp add: path_eval)
  from load_stream_slots [of False 1 2 "[140, 141]" id "\<lambda>c. c = 48" ?cw] obtain cw' where
    "load_stream False (\<lambda>c. c = 48) id [1, 2, 140, 141] ?cw = Inr cw'" by auto
  with load_good_path [of "''GRID1''" ?fs "[1, 2, 140, 141]" False "\<lambda>c. c = 48" id ?c
      "new_crossword 0 0"] f
  have "load False (\<lambda>c. c = 48) id ?fs ?c ''GRID1'' (new_crossword 0 0) =
      Some (Inr (cw', ?c\<lparr>cout := cout ?c @ show_board False (\<lambda>c. c = 48) cw'\<rparr>))"
    by simp
  from load_reads_ctb_file [OF this] this show ?thesis by blast
qed

end
