(* ===== verification/Dictionary_File.thy ===== *)
theory Dictionary_File
  imports Environment Index_Load
begin

text \<open>
  The dictionary file as \<^verbatim>\<open>Dictionary::loadDictionary\<close> reads it (lines 151-164 of
  \<^verbatim>\<open>src/dictionary.cpp\<close>): the input stream with its state bits, \<^verbatim>\<open>std::getline\<close>, and the
  loop that reads a word up to a tab and an explanation up to the end of the line until
  reading a word fails. The loop of \<open>Word_Index\<close> then stores the records that were read.
\<close>

section \<open>The stream\<close>

record istream =
  rest :: "byte list"
  eofbit :: bool
  failbit :: bool

definition open_stream :: "byte list \<Rightarrow> istream" where
  "open_stream bytes = \<lparr>rest = bytes, eofbit = False, failbit = False\<rparr>"

definition good :: "istream \<Rightarrow> bool" where
  "good s \<longleftrightarrow> \<not> eofbit s \<and> \<not> failbit s"

text \<open>
  \<^verbatim>\<open>std::getline(s, str, delim)\<close>. On a stream that is not good it sets \<^verbatim>\<open>failbit\<close> and leaves
  the string as it is. Otherwise it clears the string and moves characters into it up to
  the delimiter, which it removes from the stream; at the end of the stream it sets
  \<^verbatim>\<open>eofbit\<close>, and \<^verbatim>\<open>failbit\<close> too when it has moved nothing.
\<close>

definition getline :: "byte \<Rightarrow> istream \<Rightarrow> str \<Rightarrow> str \<times> istream" where
  "getline delim s str =
     (if \<not> good s then (str, s\<lparr>failbit := True\<rparr>)
      else case dropWhile (\<lambda>c. c \<noteq> delim) (rest s) of
             [] \<Rightarrow> (rest s, s\<lparr>rest := [], eofbit := True, failbit := (rest s = [])\<rparr>)
           | c # r \<Rightarrow> (takeWhile (\<lambda>c. c \<noteq> delim) (rest s), s\<lparr>rest := r\<rparr>))"

abbreviation TAB :: byte where "TAB \<equiv> 9"
abbreviation NL :: byte where "NL \<equiv> 10"

section \<open>The reading loop\<close>

text \<open>What bounds the rounds of the loop: the bytes left in a good stream.\<close>

definition left :: "istream \<Rightarrow> nat" where
  "left s = (if good s then length (rest s) else 0)"

lemma dropWhile_Cons_less: "dropWhile P xs = c # r \<Longrightarrow> length r < length xs"
  using length_dropWhile_le [of P xs] by simp

lemma getline_left: "getline delim s str = (str', s') \<Longrightarrow> left s' \<le> left s"
  by (auto simp: getline_def left_def good_def split: if_splits list.splits
      dest!: dropWhile_Cons_less)

lemma getline_read:
  "getline delim s str = (str', s') \<Longrightarrow> \<not> failbit s' \<Longrightarrow> good s \<and> left s' < left s"
  by (auto simp: getline_def left_def good_def split: if_splits list.splits
      dest!: dropWhile_Cons_less)

lemma read_round_left:
  assumes "(w, s1) = getline d s nw" "\<not> failbit s1" "(e, s2) = getline d' s1 ex"
  shows "left s2 < left s"
  using getline_read [OF assms(1) [symmetric] assms(2)] getline_left [OF assms(3) [symmetric]]
  by simp

text \<open>
  The loop head and the first statement of the body,

  \<^verbatim>\<open>while (getline(fin, nextWord, '\t')) { getline(fin, explanation); ... }\<close>

  with the two variables that live across the rounds; the conversions of lines 166 and
  167 assign to them. The result is the list of the pairs the rounds see after line 164.
\<close>

function read_loop :: "istream \<Rightarrow> str \<Rightarrow> str \<Rightarrow> (str \<times> str) list" where
  "read_loop fin nextWord explanation =
     (case getline TAB fin nextWord of
        (nextWord, fin) \<Rightarrow>
          if failbit fin then []
          else (case getline NL fin explanation of
                  (explanation, fin) \<Rightarrow>
                    (nextWord, explanation)
                      # read_loop fin (dosToWinCode nextWord) (dosToWinCode explanation)))"
  by pat_completeness auto
termination
  by (relation "measure (\<lambda>(fin, nextWord, explanation). left fin)")
    (simp, auto intro: read_round_left)

declare read_loop.simps [simp del]

definition read_records :: "byte list \<Rightarrow> (str \<times> str) list" where
  "read_records bytes = read_loop (open_stream bytes) [] []"

text \<open>
  \<^verbatim>\<open>Dictionary::loadDictionary\<close> with the file system and the console: the file at the path
  is opened and read, its records are stored, and one line is written.
\<close>

definition loadDictionary_at ::
  "files \<Rightarrow> string \<Rightarrow> console \<Rightarrow> dictionary \<Rightarrow> fault + dictionary \<times> console" where
  "loadDictionary_at fs path c d =
     (case loadDictionary (map_option read_records (fs path)) d of
        Inl e \<Rightarrow> Inl e
      | Inr d' \<Rightarrow>
          Inr (d', print_line
                     (case fs path of
                        None \<Rightarrow> ''[ERROR]: Dictionary::loadDictionary: Could not open file: '' @ path
                      | Some bytes \<Rightarrow>
                          ''[INFO]: Dictionary::loadDictionary: Loaded ''
                            @ show_nat (length (allWords d')) @ '' words from dictionary'')
                     c))"

section \<open>Reference: the file of a list of records\<close>

definition record_line :: "str \<times> str \<Rightarrow> byte list" where
  "record_line r = fst r @ TAB # snd r @ [NL]"

definition file_of :: "(str \<times> str) list \<Rightarrow> byte list" where
  "file_of rs = concat (map record_line rs)"

text \<open>A record that goes through a file unchanged: no tab in the word, one line.\<close>

definition plain :: "str \<times> str \<Rightarrow> bool" where
  "plain r \<longleftrightarrow> TAB \<notin> set (fst r) \<and> NL \<notin> set (snd r)"

text \<open>The explanation the loop holds after the records \<open>rs\<close>, when it held \<open>ex\<close> before.\<close>

definition carried :: "str \<Rightarrow> (str \<times> str) list \<Rightarrow> str" where
  "carried ex rs = (if rs = [] then ex else dosToWinCode (snd (last rs)))"

section \<open>getline\<close>

lemma good_open [simp]: "good (open_stream bytes)"
  by (simp add: good_def open_stream_def)

lemma open_stream_simps [simp]:
  "rest (open_stream bytes) = bytes" "\<not> eofbit (open_stream bytes)"
  "\<not> failbit (open_stream bytes)"
  by (simp_all add: open_stream_def)

lemma dropWhile_delim [simp]:
  "d \<notin> set w \<Longrightarrow> dropWhile (\<lambda>c. c \<noteq> d) (w @ r) = dropWhile (\<lambda>c. c \<noteq> d) r"
  by (induction w) auto

lemma takeWhile_delim [simp]:
  "d \<notin> set w \<Longrightarrow> takeWhile (\<lambda>c. c \<noteq> d) (w @ r) = w @ takeWhile (\<lambda>c. c \<noteq> d) r"
  by (induction w) auto

lemma dropWhile_no_delim [simp]: "d \<notin> set w \<Longrightarrow> dropWhile (\<lambda>c. c \<noteq> d) w = []"
  using dropWhile_delim [of d w "[]"] by simp

lemma getline_bad [simp]: "\<not> good s \<Longrightarrow> getline d s str = (str, s\<lparr>failbit := True\<rparr>)"
  by (simp add: getline_def)

lemma getline_delim:
  "d \<notin> set w \<Longrightarrow> getline d (open_stream (w @ d # r)) str = (w, open_stream r)"
  by (simp add: getline_def open_stream_def good_def)

lemma getline_end:
  "d \<notin> set w \<Longrightarrow>
   getline d (open_stream w) str = (w, \<lparr>rest = [], eofbit = True, failbit = (w = [])\<rparr>)"
  by (simp add: getline_def open_stream_def good_def)

section \<open>Rounds of the loop\<close>

lemma read_loop_bad [simp]: "\<not> good s \<Longrightarrow> read_loop s nw ex = []"
  by (subst read_loop.simps) simp

lemma read_loop_empty [simp]: "read_loop (open_stream []) nw ex = []"
  by (subst read_loop.simps) (simp add: getline_end [of _ "[]", simplified])

text \<open>The word of the round before is overwritten before it is used.\<close>

lemma read_loop_word: "read_loop s nw ex = read_loop s [] ex"
  by (subst (1 2) read_loop.simps) (auto simp: getline_def split: list.splits)

lemma read_loop_record:
  assumes "TAB \<notin> set w" "NL \<notin> set e"
  shows "read_loop (open_stream (w @ TAB # e @ NL # tail)) nw ex =
     (w, e) # read_loop (open_stream tail) [] (dosToWinCode e)"
  using assms by (subst read_loop.simps, subst read_loop_word) (simp add: getline_delim)

text \<open>The last line may lack its end.\<close>

lemma read_loop_last:
  assumes "TAB \<notin> set w" "NL \<notin> set e"
  shows "read_loop (open_stream (w @ TAB # e)) nw ex = [(w, e)]"
  using assms by (subst read_loop.simps) (simp add: getline_delim getline_end good_def)

text \<open>
  A word that is not followed by a tab is read to the end of the file; the second
  \<^verbatim>\<open>getline\<close> then finds the stream at its end and leaves the explanation of the round
  before in the variable.
\<close>

lemma read_loop_truncated:
  assumes "TAB \<notin> set w" "w \<noteq> []"
  shows "read_loop (open_stream w) nw ex = [(w, ex)]"
  using assms by (subst read_loop.simps) (simp add: getline_end good_def)

lemma file_of_simps [simp]:
  "file_of [] = []" "file_of (r # rs) = fst r @ TAB # snd r @ NL # file_of rs"
  "file_of (rs @ rs') = file_of rs @ file_of rs'"
  by (simp_all add: file_of_def record_line_def)

lemma carried_simps [simp]:
  "carried ex [] = ex" "carried ex (r # rs) = carried (dosToWinCode (snd r)) rs"
  by (simp_all add: carried_def)

lemma read_loop_file:
  "list_all plain rs \<Longrightarrow>
   read_loop (open_stream (file_of rs @ tail)) nw ex =
     rs @ read_loop (open_stream tail) [] (carried ex rs)"
proof (induction rs arbitrary: nw ex)
  case Nil
  show ?case using read_loop_word [of _ nw] by simp
next
  case (Cons r rs)
  then have "plain r" "list_all plain rs"
    by simp_all
  then have "TAB \<notin> set (fst r)" "NL \<notin> set (snd r)" "list_all plain rs"
    by (simp_all add: plain_def)
  with Cons.IH [of "[]" "dosToWinCode (snd r)"] show ?case
    by (cases r) (simp add: read_loop_record)
qed

text \<open>Every round takes at least one byte from the stream.\<close>

lemma length_read_loop: "length (read_loop s nw ex) \<le> left s"
proof (induction s nw ex rule: read_loop.induct)
  case (1 fin nextWord explanation)
  obtain w s1 where g1: "getline TAB fin nextWord = (w, s1)" by (cases "getline TAB fin nextWord")
  obtain e s2 where g2: "getline NL s1 explanation = (e, s2)" by (cases "getline NL s1 explanation")
  show ?case
  proof (cases "failbit s1")
    case True
    with g1 show ?thesis by (subst read_loop.simps) simp
  next
    case False
    from 1 [OF g1 [symmetric] False g2 [symmetric]]
    have "length (read_loop s2 (dosToWinCode w) (dosToWinCode e)) \<le> left s2" .
    moreover from getline_read [OF g1 False] getline_left [OF g2] have "left s2 < left fin"
      by simp
    ultimately show ?thesis using g1 g2 False by (subst read_loop.simps) simp
  qed
qed

lemma loadDictionary_at_read:
  "fs path = Some bytes \<Longrightarrow> loadDictionary (Some (read_records bytes)) d = Inr d' \<Longrightarrow>
   loadDictionary_at fs path c d =
     Inr (d', print_line (''[INFO]: Dictionary::loadDictionary: Loaded ''
                            @ show_nat (length (allWords d')) @ '' words from dictionary'') c)"
  by (simp add: loadDictionary_at_def)

lemma loadDictionary_at_missing:
  "fs path = None \<Longrightarrow>
   loadDictionary_at fs path c d =
     Inr (reset d, print_line (''[ERROR]: Dictionary::loadDictionary: Could not open file: '' @ path) c)"
  by (simp add: loadDictionary_at_def)

lemma read_records_file: "list_all plain rs \<Longrightarrow> read_records (file_of rs) = rs"
  using read_loop_file [of rs "[]" "[]" "[]"] by (simp add: read_records_def)

section \<open>Writing and reading back\<close>

text \<open>
  C10 (roundtrip). Records whose words hold no tab and whose explanations hold no line
  feed, written one per line as word, tab, explanation, are read back as they were
  written, in order; the end of the last line may be missing.
\<close>

theorem read_records_roundtrip:
  assumes "list_all plain rs"
  shows "read_records (file_of rs) = rs \<and>
    (rs \<noteq> [] \<longrightarrow> read_records (butlast (file_of rs)) = rs)"
proof (intro conjI impI)
  show "read_records (file_of rs) = rs" using assms by (rule read_records_file)
  assume "rs \<noteq> []"
  then obtain rs' r where rs: "rs = rs' @ [r]" by (metis append_butlast_last_id)
  with assms have p: "list_all plain rs'" "TAB \<notin> set (fst r)" "NL \<notin> set (snd r)"
    by (simp_all add: plain_def)
  have "butlast (file_of rs) = file_of rs' @ fst r @ TAB # snd r"
    unfolding rs by (simp add: butlast_append)
  with read_loop_file [OF p(1), of "fst r @ TAB # snd r" "[]" "[]"] p(2,3) show
    "read_records (butlast (file_of rs)) = rs"
    by (simp add: read_records_def read_loop_last rs)
qed

theorem read_records_roundtrip_witness:
  "read_records [202, 9, 1, 10, 203, 204, 9, 10] = [([202], [1]), ([203, 204], [])] \<and>
   read_records [202, 9, 1, 10, 203, 204, 9] = [([202], [1]), ([203, 204], [])]"
  using read_records_roundtrip [of "[([202], [1]), ([203, 204], [])]"]
  by (simp add: plain_def)

section \<open>The loop ends\<close>

text \<open>
  C33 (termination). The reading loop ends on every file, whatever its bytes: every round
  takes at least one byte from the stream, so it reads at most as many records as the
  file has bytes.
\<close>

theorem read_rounds_bounded: "length (read_records bytes) \<le> length bytes"
  using length_read_loop [of "open_stream bytes" "[]" "[]"] by (simp add: read_records_def left_def)

section \<open>A file that ends inside a record\<close>

text \<open>
  C26 (functional). When the file ends with bytes that hold no tab, after complete records,
  the loop takes them as one more word and gives it the explanation of the record before
  it (none if it is the first): the second \<^verbatim>\<open>getline\<close> fails and leaves the variable as the
  round before converted it. A file that ends in an empty line is such a file, its last
  word being the line feed.
\<close>

theorem truncated_record_keeps_explanation:
  assumes "list_all plain rs" "TAB \<notin> set w" "w \<noteq> []"
  shows "read_records (file_of rs @ w) = rs @ [(w, carried [] rs)]"
  using read_loop_file [OF assms(1), of w "[]" "[]"] assms(2,3)
  by (simp add: read_records_def read_loop_truncated)

theorem truncated_record_keeps_explanation_witness:
  "read_records [202, 9, 140, 10, 10] = [([202], [140]), ([10], [204])]"
  using truncated_record_keeps_explanation [of "[([202], [140])]" "[10]"]
  by (simp add: plain_def carried_def dosToWinCode_def dosToWin_char_def CYRILLIC_A_def)

end
