(* ===== verification/Config_Load.thy ===== *)
theory Config_Load
  imports Dictionary_File Index_Machine
begin

text \<open>
  The two constructors of \<^verbatim>\<open>Dictionary\<close> (lines 7-68 of \<^verbatim>\<open>src/dictionary.cpp\<close>): they read
  a configuration file, take the path of the dictionary file from it or fall back to a
  default, load the dictionary and shuffle it. Exceptions that leave a constructor are
  values; the lines written to the console are part of the result. The parser of
  \<^verbatim>\<open>boost::property_tree\<close> is a parameter: a function from the bytes of a file to a tree
  or to the message of the exception it throws.
\<close>

section \<open>Exceptions and the property tree\<close>

datatype exception = ini_parser_error string | ptree_bad_path string | runtime_error string

fun what :: "exception \<Rightarrow> string" where
  "what (ini_parser_error m) = m"
| "what (ptree_bad_path m) = m"
| "what (runtime_error m) = m"

text \<open>What ends a constructor other than its return: an exception, or undefined behaviour.\<close>

datatype failure = Throws exception | Faults fault

type_synonym ptree = "string \<rightharpoonup> string"
type_synonym parser = "byte list \<Rightarrow> string + ptree"

text \<open>\<^verbatim>\<open>boost::property_tree::ini_parser::read_ini(path, tree)\<close>\<close>

definition read_ini :: "parser \<Rightarrow> files \<Rightarrow> string \<Rightarrow> exception + ptree" where
  "read_ini parse fs path =
     (case fs path of
        None \<Rightarrow> Inl (ini_parser_error (path @ '': cannot open file''))
      | Some bytes \<Rightarrow>
          (case parse bytes of Inl m \<Rightarrow> Inl (ini_parser_error m) | Inr t \<Rightarrow> Inr t))"

text \<open>\<^verbatim>\<open>tree.get<std::string>(key)\<close>\<close>

definition get_string :: "ptree \<Rightarrow> string \<Rightarrow> exception + string" where
  "get_string t key =
     (case t key of
        None \<Rightarrow> Inl (ptree_bad_path (''No such node ('' @ key @ '')''))
      | Some v \<Rightarrow> Inr v)"

section \<open>The object\<close>

text \<open>
  The members \<^verbatim>\<open>_iniPropertyTree\<close> and \<^verbatim>\<open>_dictionaryFilePath\<close>, and the rest of the object as
  \<open>Word_Index\<close> has it.
\<close>

record configured =
  iniPropertyTree :: ptree
  dictionaryFilePath :: string
  index :: dictionary

definition DEFAULT_DICTIONARY_PATH :: string where
  "DEFAULT_DICTIONARY_PATH = ''z:/cross/bigdict.txt''"

definition DEFAULT_CONFIG_PATH :: string where
  "DEFAULT_CONFIG_PATH = ''z:/cross/config/config.ini''"

section \<open>The parts the constructors share\<close>

text \<open>
  The second \<^verbatim>\<open>try\<close> block of both constructors (lines 22-31 and 55-64): the path of the
  dictionary file, and the console. \<open>shown\<close> is the name of the configuration file in the
  message.
\<close>

definition dictionary_path :: "string \<Rightarrow> ptree \<Rightarrow> console \<Rightarrow> string \<times> console" where
  "dictionary_path shown t c =
     (case get_string t ''dictionary.dictionary_file_path'' of
        Inr p \<Rightarrow> (p, c)
      | Inl e \<Rightarrow>
          (DEFAULT_DICTIONARY_PATH,
           print_line (''[INFO]: Dictionary::Dictionary: Defaulting to '' @ DEFAULT_DICTIONARY_PATH)
             (print_line
                (''[ERROR]: Dictionary::Dictionary: Could not find dictionary.dictionary_file_path in ''
                   @ shown @ ''. '' @ what e) c)))"

text \<open>
  \<^verbatim>\<open>loadDictionary(); shuffle();\<close> (lines 33-34 and 66-67) on the object whose tables are
  empty. \<open>n\<close> is \<^verbatim>\<open>LONGEST_WORD\<close>, \<open>rs\<close> and \<open>rc\<close> are the permutations of the shuffle.
\<close>

definition load_and_shuffle ::
  "nat \<Rightarrow> files \<Rightarrow> (nat \<Rightarrow> key \<Rightarrow> bucket \<Rightarrow> bucket) \<Rightarrow> (addr \<Rightarrow> bucket \<Rightarrow> bucket) \<Rightarrow> ptree \<Rightarrow> string
     \<Rightarrow> console \<Rightarrow> (failure + configured) \<times> console" where
  "load_and_shuffle n fs rs rc t path c =
     (case loadDictionary_at fs path c (new_dictionary n) of
        Inl e \<Rightarrow> (Inl (Faults e), c)
      | Inr (d, c') \<Rightarrow>
          (case shuffle rs rc d of
             Inl e \<Rightarrow> (Inl (Faults e), c')
           | Inr d' \<Rightarrow>
               (Inr \<lparr>iniPropertyTree = t, dictionaryFilePath = path, index = d'\<rparr>, c')))"

section \<open>The constructors\<close>

text \<open>\<^verbatim>\<open>Dictionary::Dictionary()\<close>\<close>

definition Dictionary_default ::
  "nat \<Rightarrow> parser \<Rightarrow> files \<Rightarrow> (nat \<Rightarrow> key \<Rightarrow> bucket \<Rightarrow> bucket) \<Rightarrow> (addr \<Rightarrow> bucket \<Rightarrow> bucket)
     \<Rightarrow> console \<Rightarrow> (failure + configured) \<times> console" where
  "Dictionary_default n parse fs rs rc c =
     (case read_ini parse fs DEFAULT_CONFIG_PATH of
        Inl e \<Rightarrow>
          (Inl (Throws e),
           print_line (''[ERROR]: Dictionary::Dictionary: Could not open default config path: ''
                         @ DEFAULT_CONFIG_PATH @ ''. '' @ what e) c)
      | Inr t \<Rightarrow>
          (case dictionary_path ''config/config.ini'' t c of
             (path, c) \<Rightarrow> load_and_shuffle n fs rs rc t path c))"

text \<open>
  \<^verbatim>\<open>Dictionary::Dictionary(const std::string& configFilePath)\<close>. In the handler of the first
  \<^verbatim>\<open>try\<close> block, \<^verbatim>\<open>std::ifstream{DEFAULT_CONFIG_PATH}\<close> is true when the default configuration
  file can be opened; the exception of the second \<^verbatim>\<open>read_ini\<close> leaves the constructor.
\<close>

definition Dictionary_path ::
  "nat \<Rightarrow> parser \<Rightarrow> files \<Rightarrow> (nat \<Rightarrow> key \<Rightarrow> bucket \<Rightarrow> bucket) \<Rightarrow> (addr \<Rightarrow> bucket \<Rightarrow> bucket)
     \<Rightarrow> string \<Rightarrow> console \<Rightarrow> (failure + configured) \<times> console" where
  "Dictionary_path n parse fs rs rc configFilePath c =
     (let after = (\<lambda>t c. case dictionary_path configFilePath t c of
                             (path, c) \<Rightarrow> load_and_shuffle n fs rs rc t path c)
      in case read_ini parse fs configFilePath of
           Inr t \<Rightarrow> after t c
         | Inl e \<Rightarrow>
             (let c = print_line (''[ERROR]: Dictionary::Dictionary: Could not open ''
                                    @ configFilePath @ ''. '' @ what e) c;
                  c = print_line (''[INFO]: Dictionary::Dictionary: Defaulting to ''
                                    @ DEFAULT_CONFIG_PATH) c
              in if fs DEFAULT_CONFIG_PATH \<noteq> None
                 then (Inl (Throws (runtime_error
                         ''Could not open the given configuration path nor the default configuration path'')),
                       print_line (''[ERROR]: Dictionary::Dictionary: Could not open default path: ''
                                     @ DEFAULT_CONFIG_PATH @ ''.'') c)
                 else (case read_ini parse fs configFilePath of
                         Inl e \<Rightarrow> (Inl (Throws e), c)
                       | Inr t \<Rightarrow> after t c)))"

section \<open>Reference: what a constructor that returns has done\<close>

text \<open>The path of the dictionary file that a tree names.\<close>

definition path_in :: "ptree \<Rightarrow> string" where
  "path_in t =
     (case t ''dictionary.dictionary_file_path'' of None \<Rightarrow> DEFAULT_DICTIONARY_PATH | Some p \<Rightarrow> p)"

text \<open>The line that \<^verbatim>\<open>loadDictionary\<close> writes when it returns with \<open>k\<close> words.\<close>

definition load_line :: "files \<Rightarrow> string \<Rightarrow> nat \<Rightarrow> string" where
  "load_line fs path k =
     (case fs path of
        None \<Rightarrow> ''[ERROR]: Dictionary::loadDictionary: Could not open file: '' @ path
      | Some bytes \<Rightarrow>
          ''[INFO]: Dictionary::loadDictionary: Loaded '' @ show_nat k @ '' words from dictionary'')"

text \<open>The records that \<^verbatim>\<open>loadDictionary\<close> finds at a path.\<close>

definition records_at :: "files \<Rightarrow> string \<Rightarrow> (str \<times> str) list option" where
  "records_at fs path = map_option read_records (fs path)"

section \<open>Lemmas\<close>

lemma fst_dictionary_path [simp]: "fst (dictionary_path shown t c) = path_in t"
  by (simp add: dictionary_path_def get_string_def path_in_def split: option.splits)

lemma cin_dictionary_path [simp]: "cin (snd (dictionary_path shown t c)) = cin c"
  by (simp add: dictionary_path_def get_string_def split: option.splits)

lemma dictionary_path_found:
  "t ''dictionary.dictionary_file_path'' = Some p \<Longrightarrow> dictionary_path shown t c = (p, c)"
  by (simp add: dictionary_path_def get_string_def)

lemma loadDictionary_at_eq:
  "loadDictionary_at fs path c d =
     (case loadDictionary (records_at fs path) d of
        Inl e \<Rightarrow> Inl e
      | Inr d' \<Rightarrow> Inr (d', print_line (load_line fs path (length (allWords d'))) c))"
  by (simp add: loadDictionary_at_def load_line_def records_at_def split: sum.splits)

text \<open>The shuffle of a dictionary that was just loaded finds no vector to shuffle.\<close>

lemma construct_total:
  assumes "case f of None \<Rightarrow> True | Some records \<Rightarrow> \<forall>r\<in>set records. length (clean_key (fst r)) < n"
  shows "\<exists>d. construct n f rs rc = Inr d"
proof -
  have "\<exists>d0. loadDictionary f (new_dictionary n) = Inr d0 \<and> cacheSearchMap d0 = []"
  proof (cases f)
    case None
    then show ?thesis by simp
  next
    case (Some records)
    with assms loadDictionary_Inr_iff [of records "new_dictionary n"] obtain d0 where
      "loadDictionary (Some records) (new_dictionary n) = Inr d0"
      by (auto simp: new_dictionary_def LONGEST_WORD_def)
    with Some loadDictionary_effect(3) [OF this] show ?thesis by simp
  qed
  then obtain d0 where d0: "loadDictionary f (new_dictionary n) = Inr d0" "cacheSearchMap d0 = []"
    by blast
  then have "cache_ok d0" by (simp add: cache_ok_def)
  from shuffle_no_fault [OF this] d0(1) show ?thesis by (simp add: construct_def)
qed

lemma fst_load_and_shuffle:
  "fst (load_and_shuffle n fs rs rc t path c) =
     (case construct n (records_at fs path) rs rc of
        Inl e \<Rightarrow> Inl (Faults e)
      | Inr d \<Rightarrow> Inr \<lparr>iniPropertyTree = t, dictionaryFilePath = path, index = d\<rparr>)"
  by (simp add: load_and_shuffle_def loadDictionary_at_eq construct_def split: sum.splits)

lemma dictionary_path_eq:
  "dictionary_path shown t c = (path_in t, snd (dictionary_path shown t c))"
  by (metis fst_dictionary_path prod.collapse)

lemma fst_Dictionary_default:
  "fst (Dictionary_default n parse fs rs rc c) =
     (case read_ini parse fs DEFAULT_CONFIG_PATH of
        Inl e \<Rightarrow> Inl (Throws e)
      | Inr t \<Rightarrow> fst (load_and_shuffle n fs rs rc t (path_in t) c))"
proof (cases "read_ini parse fs DEFAULT_CONFIG_PATH")
  case (Inl e)
  then show ?thesis by (simp add: Dictionary_default_def)
next
  case (Inr t)
  then show ?thesis
    by (subst Dictionary_default_def, subst dictionary_path_eq) (simp add: fst_load_and_shuffle)
qed

lemma fst_Dictionary_path_read:
  assumes "read_ini parse fs configFilePath = Inr t"
  shows "fst (Dictionary_path n parse fs rs rc configFilePath c) =
     fst (load_and_shuffle n fs rs rc t (path_in t) c)"
  using assms
  by (subst Dictionary_path_def, subst dictionary_path_eq) (simp add: fst_load_and_shuffle)

lemma load_and_shuffle_construct:
  assumes "construct n (records_at fs path) rs rc = Inr d"
  shows "load_and_shuffle n fs rs rc t path c =
     (Inr \<lparr>iniPropertyTree = t, dictionaryFilePath = path, index = d\<rparr>,
      print_line (load_line fs path (length (allWords d))) c)"
proof -
  from assms obtain d0 where
    d0: "loadDictionary (records_at fs path) (new_dictionary n) = Inr d0" "shuffle rs rc d0 = Inr d"
    by (rule construct_Inr)
  from shuffle_effect(1) [OF d0(2)] d0 show ?thesis
    by (simp add: load_and_shuffle_def loadDictionary_at_eq)
qed

lemma Dictionary_path_read:
  assumes "read_ini parse fs configFilePath = Inr t"
    and "construct n (records_at fs (path_in t)) rs rc = Inr d"
  shows "fst (Dictionary_path n parse fs rs rc configFilePath c) =
     Inr \<lparr>iniPropertyTree = t, dictionaryFilePath = path_in t, index = d\<rparr>"
    and "cout (snd (Dictionary_path n parse fs rs rc configFilePath c)) =
     cout (snd (dictionary_path configFilePath t c))
       @ [load_line fs (path_in t) (length (allWords d))]"
proof -
  obtain c' where "dictionary_path configFilePath t c = (path_in t, c')"
    by (metis fst_dictionary_path prod.collapse)
  with assms(1) load_and_shuffle_construct [OF assms(2)] show
    "fst (Dictionary_path n parse fs rs rc configFilePath c) =
       Inr \<lparr>iniPropertyTree = t, dictionaryFilePath = path_in t, index = d\<rparr>"
    "cout (snd (Dictionary_path n parse fs rs rc configFilePath c)) =
       cout (snd (dictionary_path configFilePath t c))
         @ [load_line fs (path_in t) (length (allWords d))]"
    by (simp_all add: Dictionary_path_def)
qed

lemma Dictionary_default_read:
  assumes "read_ini parse fs DEFAULT_CONFIG_PATH = Inr t"
    and "construct n (records_at fs (path_in t)) rs rc = Inr d"
  shows "fst (Dictionary_default n parse fs rs rc c) =
     Inr \<lparr>iniPropertyTree = t, dictionaryFilePath = path_in t, index = d\<rparr>"
    and "cout (snd (Dictionary_default n parse fs rs rc c)) =
     cout (snd (dictionary_path ''config/config.ini'' t c))
       @ [load_line fs (path_in t) (length (allWords d))]"
proof -
  obtain c' where "dictionary_path ''config/config.ini'' t c = (path_in t, c')"
    by (metis fst_dictionary_path prod.collapse)
  with assms(1) load_and_shuffle_construct [OF assms(2)] show
    "fst (Dictionary_default n parse fs rs rc c) =
       Inr \<lparr>iniPropertyTree = t, dictionaryFilePath = path_in t, index = d\<rparr>"
    "cout (snd (Dictionary_default n parse fs rs rc c)) =
       cout (snd (dictionary_path ''config/config.ini'' t c))
         @ [load_line fs (path_in t) (length (allWords d))]"
    by (simp_all add: Dictionary_default_def)
qed

section \<open>The fallback\<close>

text \<open>
  C11 (error). When the configuration file that is given cannot be read, the constructor
  never returns an object: it throws the \<^verbatim>\<open>runtime_error\<close> exactly when the default
  configuration file can be opened, and otherwise reads the file that just failed once
  more and leaves with the exception of the parser. The default configuration is never
  read.
\<close>

theorem fallback_never_taken:
  assumes "read_ini parse fs configFilePath = Inl e"
  shows "fst (Dictionary_path n parse fs rs rc configFilePath c) =
     Inl (Throws (if fs DEFAULT_CONFIG_PATH \<noteq> None
                  then runtime_error
                    ''Could not open the given configuration path nor the default configuration path''
                  else e))"
  using assms by (simp add: Dictionary_path_def Let_def)

theorem fallback_never_taken_witness:
  "fst (Dictionary_path 8 (\<lambda>bytes. Inr Map.empty) [DEFAULT_CONFIG_PATH \<mapsto> []] (\<lambda>len k. id) (\<lambda>a. id)
          ''my.ini'' \<lparr>cin = [], cout = []\<rparr>) =
     Inl (Throws (runtime_error
       ''Could not open the given configuration path nor the default configuration path''))"
  using fallback_never_taken [of "\<lambda>bytes. Inr Map.empty" "[DEFAULT_CONFIG_PATH \<mapsto> []]" "''my.ini''"
      "ini_parser_error ''my.ini: cannot open file''" 8 "\<lambda>len k. id" "\<lambda>a. id" "\<lparr>cin = [], cout = []\<rparr>"]
  by (simp add: read_ini_def DEFAULT_CONFIG_PATH_def)

section \<open>The two constructors\<close>

text \<open>
  Given the default configuration path, the constructor with a path
  ends as the constructor without one does (the same object, fault or exception) exactly
  when the default configuration file can be read or cannot be opened at all; when it can
  be opened but not parsed, one throws the exception of the parser and the other the
  \<^verbatim>\<open>runtime_error\<close>.
\<close>

theorem constructors_agree_iff:
  "fst (Dictionary_path n parse fs rs rc DEFAULT_CONFIG_PATH c) =
     fst (Dictionary_default n parse fs rs rc c) \<longleftrightarrow>
   fs DEFAULT_CONFIG_PATH = None \<or> (\<exists>t. read_ini parse fs DEFAULT_CONFIG_PATH = Inr t)"
proof (cases "read_ini parse fs DEFAULT_CONFIG_PATH")
  case (Inl e)
  then have "e \<noteq> runtime_error m" for m
    by (auto simp: read_ini_def split: option.splits sum.splits)
  with Inl show ?thesis by (auto simp: Dictionary_path_def fst_Dictionary_default Let_def)
next
  case (Inr t)
  then show ?thesis
    by (simp add: fst_Dictionary_path_read fst_Dictionary_default fst_load_and_shuffle)
qed

end
