(* ===== verification/Spec2Isabelle.thy ===== *)
theory Spec2Isabelle
  imports XW_Prelude Text_Normalizer Key_Packing Word_Index Index_Load Index_Query
    Query_Correctness Cache_Storage Index_Machine Edit_Distance
    Environment Board_Slots Board_Grid Grid_Path Board_Load Dictionary_File Config_Load
begin

text \<open>
  \<^bold>\<open>A verification development for the crossword dictionary and slot extractor.\<close>

  \<^bold>\<open>The program.\<close> \<^verbatim>\<open>src/dictionary.cpp\<close> implements \<^verbatim>\<open>class utils::Dictionary\<close>, a
  pattern-constrained word index. Its parts, in the order the data flows:

  \<^item> the text normalizer (\<^verbatim>\<open>toupper\<close>, \<^verbatim>\<open>isalpha\<close>, \<^verbatim>\<open>dosToWinCode\<close>, \<^verbatim>\<open>cleanString\<close>), which
    turns a raw dictionary word into its canonical key;
  \<^item> the key packing (\<^verbatim>\<open>getKey\<close>, two overloads), which packs up to six letters of a word,
    selected by a mask, into a 64-bit key;
  \<^item> the loader (\<^verbatim>\<open>reset\<close>, \<^verbatim>\<open>loadDictionary\<close>, \<^verbatim>\<open>addToFastSearch\<close>), which appends every
    record's key to the word table \<^verbatim>\<open>_allWords\<close>, records its surface form and explanation
    with \<^verbatim>\<open>emplace\<close>, and pushes its 16-bit identifier into the bucket
    \<^verbatim>\<open>_fastSearch[length][getKey(mask, word)]\<close> for each of the 64 masks;
  \<^item> the query \<^verbatim>\<open>findPossible\<close>, which answers a pattern from the cache
    \<^verbatim>\<open>_cacheSearchMap\<close> or else from the bucket of the pattern's key (filtered with
    \<^verbatim>\<open>isPossible\<close> when the pattern is longer than six), allocates a vector for the answer
    with \<^verbatim>\<open>new\<close>, caches the pointer and returns a view into the vector;
  \<^item> \<^verbatim>\<open>shuffle\<close>, which permutes every bucket and every cached vector; the lookups
    \<^verbatim>\<open>getDirty\<close> and \<^verbatim>\<open>getExplanation\<close>; the destructor, which deletes the cached vectors;
  \<^item> \<^verbatim>\<open>levenstein\<close>, an edit distance that does not touch the object;
  \<^item> the two constructors, which read a configuration file, take the path of the
    dictionary file from it, load the dictionary and shuffle it.

  \<^verbatim>\<open>src/crossword.cpp\<close> asks the console for the path of a grid file until one can be
  opened, reads the grid (\<^verbatim>\<open>crossword::load\<close>) and extracts the horizontal and vertical
  slots of at least two cells (\<^verbatim>\<open>crossword::loadWords\<close>), for which a solver outside the
  repository queries the index.

  \<^bold>\<open>The theories\<close>, each named after what it models:

  \<^item> \<open>XW_Prelude\<close>: the machine types (\<open>byte = 8 word\<close>, \<open>wid = 16 word\<close>,
    \<open>mask32 = 32 word\<close>, \<open>key = 64 word\<close>, \<open>str = byte list\<close>), the fact collections
    and the lemmas on bytes, lists, multisets, bits and maps that the other theories share.
  \<^item> \<open>Text_Normalizer\<close> (lines 98-134 and 166-169 of \<^verbatim>\<open>dictionary.cpp\<close>): one definition per
    function, \<open>toupper_char\<close>, \<open>toupper\<close>, \<open>isalpha\<close>, \<open>dosToWin_char\<close>,
    \<open>dosToWinCode\<close>, \<open>cleanString\<close>, and their composition \<open>clean_key\<close> as
    \<^verbatim>\<open>loadDictionary\<close> applies them. Characters are unsigned bytes with wrapping
    arithmetic. The lemmas show that the three passes are one pass (\<open>canonical_ref\<close>),
    that keys are capital letters of code page 1251, that normalization is idempotent
    and blind to case and code page, and that every byte below 128 is dropped.
  \<^item> \<open>Key_Packing\<close> (lines 227-277): \<open>getKey_mask\<close> and \<open>getKey\<close> as the fall-through
    \<^verbatim>\<open>switch\<close> statements, \<open>masks\<close> as the range of the mask loop. The lemmas read a key
    byte by byte (\<open>key_byte\<close>), show that the switch is a loop, that keys stay below
    \<open>2 ^ 48\<close>, when two keys are equal, which masks pack a word into the key of a
    pattern, and how many do.
  \<^item> \<open>Word_Index\<close> (lines 70-76, 136-225, 279-337): the object as the record
    \<open>dictionary\<close> and one definition per member function and per loop, with the names of
    the code: \<open>reset\<close>, \<open>addToFastSearch\<close>, \<open>load_entry\<close> and \<open>load_loop\<close> (body and loop of
    \<^verbatim>\<open>loadDictionary\<close>), \<open>loadDictionary\<close>, \<open>getDirty\<close>, \<open>getExplanation\<close>, \<open>shuffle\<close>,
    \<open>isPossible\<close>, \<open>possible_loop\<close>, \<open>cache_store\<close>, \<open>findPossible\<close>, \<open>delete_all\<close> and
    \<open>destroy\<close> (the destructor). The containers are modelled by what the code calls on
    them: \<open>emplace\<close>, \<open>subscript\<close> (\<^verbatim>\<open>operator[]\<close>, which inserts), \<open>push_back_at\<close>,
    \<open>new_vector\<close>, \<open>delete_vector\<close>. The result of a query is the record \<open>pattern_view\<close>
    with the three arguments \<^verbatim>\<open>findPossible\<close> gives to \<^verbatim>\<open>Pattern\<close>: the count, the begin of
    the vector, and the closure that resolves an identifier with \<^verbatim>\<open>getFromIndex\<close>;
    \<open>view_ids\<close> reads the identifiers of a view and \<open>view_words\<close> resolves them.
  \<^item> \<open>Index_Load\<close>: the effect of the loader on every field, the reference index
    \<open>index_of\<close> of a word table, the predicates \<open>words_ok\<close>, \<open>capacity_ok\<close>, \<open>index_ok\<close>,
    and the properties of loading: the buckets are exactly the reference index, loading
    faults exactly on a word of \<^verbatim>\<open>LONGEST_WORD\<close> or more letters, the first record of a
    key wins, identifiers wrap at 65536.
  \<^item> \<open>Index_Query\<close>: the invariant \<open>dict_inv\<close> of the object, the reference answer
    \<open>answer\<close> and the set \<open>matching\<close> of a pattern, the effect of \<open>findPossible\<close> on a
    cache hit and on a miss, and the preservation of the invariant by queries, by
    \<open>shuffle\<close>, by \<open>reset\<close> and its establishment by \<open>loadDictionary\<close>.
  \<^item> \<open>Query_Correctness\<close>: the contract of the index drawn from these lemmas: a query
    returns exactly the matching words, with a stated multiplicity, keeps the
    invariant, is idempotent and monotone, faults on a pattern that is too long, and
    inserts an empty bucket for an unseen key.
  \<^item> \<open>Cache_Storage\<close>: ownership of the vectors allocated by \<^verbatim>\<open>findPossible\<close>: what the
    destructor (\<open>destroy\<close>, \<open>delete_all\<close>) leaves allocated, when it deletes twice, and
    which operations keep the cache in possession of every live vector (\<open>owned\<close>).
  \<^item> \<open>Index_Machine\<close>: the public surface as a machine. \<open>call\<close> is the datatype of the
    state-changing member functions, \<open>exec\<close> and \<open>run\<close> execute calls, \<open>step\<close> is the
    inductive transition relation of the calls that return, \<open>reachable\<close> the states
    reached from a fresh object, \<open>construct\<close> the tail \<^verbatim>\<open>loadDictionary(); shuffle();\<close> of
    both constructors (lines 33-34 and 66-67). The theorems: the invariant holds in
    every reachable state (by rule induction), a call returns exactly when its lengths
    are in range, the view a query returns after any calls resolves to exactly the
    matching words (\<open>views_well_typed\<close>), a view keeps resolving to the same words
    through queries and shuffles and faults after a \<^verbatim>\<open>reset\<close>
    (\<open>view_valid_until_reset\<close>), the destructor frees everything after queries and
    shuffles, and \<^verbatim>\<open>reset\<close> leaks the cached vectors.
  \<^item> \<open>Edit_Distance\<close> (lines 78-96): \<^verbatim>\<open>levenstein\<close> as the two nested loops (\<open>row_loop\<close>,
    \<open>levenstein_table\<close>) that write the cells of a table (\<open>cell_step\<close>, \<open>at\<close>, \<open>put\<close>). The
    theorems: the loops compute the recurrence \<open>lev0\<close>, the result lies between 0 and
    the length of the shorter string, and, the first row and column being 0 rather than
    the index, a prefix of either string costs nothing, unlike in the distance of
    Levenshtein (\<open>lev1\<close>).
  \<^item> \<open>Board_Slots\<close> (lines 3-29 of \<^verbatim>\<open>src/crossword.cpp\<close>): \<^verbatim>\<open>crossword::loadWords\<close>. \<open>run_end\<close>
    is the loop that runs to the end of a run of cells, \<open>scan\<close> the loop over a line,
    both with their termination proofs, \<open>lines_loop\<close> the loop over the rows or the
    columns, \<open>hor_position\<close> and \<open>ver_position\<close> the positions that are pushed. The
    theorems: the positions returned are exactly the maximal runs of at least two
    cells that are not boxes (\<open>slot\<close>), their letters carry row-major numbers that
    identify the cells, a row without a box is one position, and a board smaller than
    \<open>N \<times> M\<close> is read out of bounds.
  \<^item> \<open>Board_Grid\<close> (lines 48-64): \<^verbatim>\<open>crossword::load\<close> from the open file on: \<open>load_grid\<close>
    reads the two size bytes (\<open>extent\<close> is the number of rounds of a loop that runs up
    to such a byte, \<open>char_int\<close> its value as an \<^verbatim>\<open>int\<close>), pushes the rows (\<open>push_rows\<close>, \<open>push_row\<close>: a new empty row at the
    end of the board, and \<open>M\<close> cells onto row \<open>i\<close>) and fills the cells (\<open>fill_rows\<close>,
    \<open>fill_row\<close>, \<open>put_cell\<close>, \<open>remap\<close>), \<open>load_stream\<close> then calls \<open>loadWords\<close>. The
    theorems: a fresh object gets the grid of the remapped bytes; a second load does not
    clear the board but makes the first \<open>N\<close> rows longer and the board longer by \<open>N\<close>
    empty rows; the remap is the code page conversion of the dictionary; the slots
    stored are those of the grid the file describes.
  \<^item> \<open>Environment\<close>: the console (\<open>console\<close>, \<open>read_token\<close> for \<^verbatim>\<open>cin >> s\<close>, \<open>print_line\<close>
    for \<^verbatim>\<open>cout << ... << endl\<close>, \<open>show_nat\<close> for a number), the relation \<open>advanced\<close>
    between the console before and after a call, and the file system (\<open>files\<close>).
  \<^item> \<open>Grid_Path\<close> (lines 32-47 of \<^verbatim>\<open>src/crossword.cpp\<close>): the two prompt loops \<open>ask_path\<close>
    and \<open>reopen\<close>, their composition \<open>open_path\<close>, and the string operations on the
    path (\<open>lower\<close>, \<open>with_ctb\<close>, \<open>name_of\<close>, \<open>substr\<close>, \<open>size_sub\<close>). The lemmas: when
    each loop returns and when it runs forever, which reply it accepts and what it
    prints, and, by induction over the unfoldings of the loops, what holds of every
    result (the path has the extension, its file exists, the console has advanced).
  \<^item> \<open>Board_Load\<close> (lines 31-65): \<open>load\<close>, the member function as a whole, and the
    printed board (\<open>show_cell\<close>, \<open>show_board\<close>). The theorems: from the prompt to the
    slots end to end, exactly when the call returns (never, at the end of the input),
    the replies that are opened, the exception on a short reply, and what every load
    that returns has read.
  \<^item> \<open>Dictionary_File\<close> (lines 147-179 of \<^verbatim>\<open>src/dictionary.cpp\<close>): the stream (\<open>istream\<close>,
    \<open>open_stream\<close>, \<open>good\<close>, \<open>getline\<close>), the reading loop \<open>read_loop\<close> with its
    termination proof, \<open>read_records\<close>, and \<open>loadDictionary_at\<close>, which is
    \<^verbatim>\<open>loadDictionary\<close> with the file system and the console. The theorems: records
    written one per line are read back, the loop makes at most one round per byte, and
    a word without explanation at the end of the file gets the explanation of the
    record before it.
  \<^item> \<open>Config_Load\<close> (lines 7-68): the constructors \<open>Dictionary_default\<close> and
    \<open>Dictionary_path\<close>, the parts they share (\<open>dictionary_path\<close>, \<open>load_and_shuffle\<close>),
    the default paths, \<open>read_ini\<close> and \<open>get_string\<close>. The theorems: with a
    configuration that cannot be read the constructor with a path always throws, and
    when the two constructors end alike.
  \<^item> This theory: the theorems that span the components, from the configuration and
    the bytes of the dictionary file through reader, normalizer, key packing, loader
    and shuffle to the answer of a query.

  \<^bold>\<open>How state and effects are modelled.\<close> The record \<open>dictionary\<close> has a field per data
  member: \<open>allWords\<close> (a list of strings), \<open>dirtyDict\<close> and \<open>explanationDict\<close> (partial
  maps), \<open>fastSearch\<close> (a list of partial maps from keys to lists of identifiers),
  \<open>cacheSearchMap\<close> (an association list from patterns to addresses). The vectors
  allocated with \<^verbatim>\<open>new\<close> live in the field \<open>heap\<close>, a partial map from addresses to
  vectors, and \<open>brk\<close> is the next address \<^verbatim>\<open>new\<close> returns. A view returned by
  \<open>findPossible\<close> is a count, an address and the resolving function; the closure of the
  code captures \<^verbatim>\<open>this\<close>, so the function takes the state that the object has when the
  view is read. A view therefore outlives nothing that changes \<^verbatim>\<open>_allWords\<close>: its vector
  is never deleted before the destructor runs, but its identifiers are resolved in the
  table of the moment. Operations take the record and return the updated record. What is undefined behaviour in C++ is a value
  \<open>Inl\<close> of the type \<open>fault\<close>: \<open>OutOfBounds\<close> for an index beyond \<^verbatim>\<open>_fastSearch\<close>,
  \<^verbatim>\<open>_allWords\<close> or a string, \<open>DanglingPointer\<close> for a deleted vector that is read or
  deleted, \<open>DanglingReference\<close> for the reference \<^verbatim>\<open>getDirty\<close> returns to a temporary. For
  \<open>loadDictionary\<close> the dictionary file is the list of its records (\<open>None\<close> when it cannot
  be opened); \<open>loadDictionary_at\<close> reads them from the bytes of the file at a path.
  \<^verbatim>\<open>std::random_shuffle\<close> is a family of functions on lists, and the theorems on
  \<open>shuffle\<close> hold for every family of permutations. The order in which the cache is
  traversed by \<open>shuffle\<close> and by the destructor is the order of the association list;
  the results do not depend on it, since the addresses in a well-formed cache are
  distinct.

  \<^bold>\<open>Constants of the header.\<close> \<^verbatim>\<open>dictionary.hpp\<close> is not among the sources. \<^verbatim>\<open>LONGEST_WORD\<close> is
  the length of \<open>fastSearch\<close>, so every theorem holds for every value of it;
  \<^verbatim>\<open>CYRILLIC_A\<close> is 224, the small letter a of code page 1251, the value at which
  \<^verbatim>\<open>toupper\<close> and \<^verbatim>\<open>dosToWinCode\<close> map the two ranges of the DOS code page and the small
  letters onto the capital letters; \<^verbatim>\<open>ANY_CHAR\<close> is the zero byte, the only value for which
  \<^verbatim>\<open>getKey(pattern)\<close>, which packs every byte of the pattern, finds the bucket a mask filled;
  \<^verbatim>\<open>getFromIndex\<close> is \<^verbatim>\<open>_allWords[index]\<close>.

  \<^bold>\<open>Console, files and exceptions.\<close> A function that reads or writes the console takes
  the record \<open>console\<close> and returns it: \<open>cin\<close> is the list of the replies to come (one
  per \<^verbatim>\<open>cin >> s\<close>; at the end of the input the string read stays as it is), \<open>cout\<close> the
  list of the lines written. The file system is a function from paths to the bytes of
  the files that can be opened, and does not change during a call. An input stream is
  the bytes to come and the two state bits \<^verbatim>\<open>eofbit\<close> and \<^verbatim>\<open>failbit\<close>; the dictionary file
  is opened in text mode, so its bytes are those the stream delivers. Exceptions that leave
  a function are values: \<open>Throws\<close> with the exception for the constructors,
  \<open>SubstrOutOfRange\<close> for \<^verbatim>\<open>std::out_of_range\<close> in \<^verbatim>\<open>crossword::load\<close>. The parser of the
  ini file belongs to boost and is a parameter of the constructors; the messages of the
  exceptions of boost are written as boost formats them. The object of a
  constructor is the record \<open>configured\<close>: the tree, the path of the dictionary file,
  and the \<open>dictionary\<close>.

  \<^bold>\<open>The crossword object.\<close> The record \<open>crossword\<close> has the fields \<open>N\<close>, \<open>M\<close> (bytes: the
  two are of type \<^verbatim>\<open>char\<close>, which \<^verbatim>\<open>fin.get(N)\<close> requires), \<open>board\<close>
  (a list of rows of bytes), \<open>areas\<close> (the positions) and \<open>name\<close>. The constructor
  initialises nothing, so \<open>new_crossword\<close> takes the bytes that \<open>N\<close> and \<open>M\<close> happen to hold.
  Whether \<^verbatim>\<open>char\<close> is signed is left to the compiler: it is the parameter \<open>sg\<close> of
  \<open>load_grid\<close>, \<open>load_stream\<close>, \<open>show_board\<close> and \<open>load\<close>, and the theorems hold for both
  values of it. Where it is signed, a size byte of 128 or more is a negative size, no
  loop over it runs, and the grid is empty (\<open>extent_signed\<close>, \<open>load_grid_negative\<close>).
  \<^verbatim>\<open>fin.open\<close> is read as in C++11: an \<^verbatim>\<open>open\<close> that succeeds clears the state of the
  stream. A letter of a position holds a
  pointer into the board in the code; here it holds the row and the column of the
  cell. \<^verbatim>\<open>crossword.h\<close> is not among the sources: the test \<^verbatim>\<open>isBox\<close> on a byte and the
  comparator \<^verbatim>\<open>position::sortHelp\<close> are parameters of \<open>loadWords\<close> and \<open>load\<close> (the sort is
  any function, and the theorems assume that it permutes), and \<^verbatim>\<open>cyrillicA\<close> is 192, the
  capital letter A of code page 1251. The
  faults of this part are \<open>CellOutOfBounds\<close>, \<open>ReadPastEnd\<close> and \<open>SubstrOutOfRange\<close> of the
  type \<open>grid_fault\<close>. The board is printed while it is read; since every cell is
  printed right after it is stored, the lines printed by a load that returns are
  written as a function of the board it leaves (\<open>show_board\<close>).

  \<^bold>\<open>Bounds and termination.\<close> Nothing is bounded by fuel. The loops over the records of
  the file, the 64 masks, the contenders of a bucket, the entries of the cache, the rows
  and the cells run over finite lists and are structurally recursive functions or
  folds; the two scanning loops of \<^verbatim>\<open>loadWords\<close>, whose counter is advanced by an inner
  loop, are defined with \<open>function\<close> and proved to terminate by the measure \<open>M - j\<close>; the
  reading loop of the dictionary file is defined with \<open>function\<close> and terminates by the
  measure \<open>left\<close>, the bytes left in a good stream. The two prompt loops of
  \<^verbatim>\<open>crossword::load\<close> do not terminate on every input: they are defined with
  \<open>partial_function (option)\<close>, the value \<open>None\<close> is a call that does not return, and
  the theorems say exactly for which inputs they return. Sizes of strings are natural
  numbers; the one subtraction of \<^verbatim>\<open>size_t\<close> values that can wrap, \<^verbatim>\<open>path.size() - 4\<close>, is
  \<open>size_sub\<close>, with the wrap at \<open>2 ^ 64\<close> written out.
  \<open>capacity_ok\<close> bounds the word table by 65536 entries, the range of \<^verbatim>\<open>uint16_t\<close>;
  beyond it identifiers wrap, which \<open>identifier_wraps\<close> shows on the model. Lengths and
  table indices of \<^verbatim>\<open>levenstein\<close> are natural numbers: the counters of the code are
  \<^verbatim>\<open>uint32_t\<close>, so the model is the code for strings shorter than \<open>2 ^ 32\<close>, and by
  \<open>levenstein_bounds\<close> the entries of the table fit the \<^verbatim>\<open>int\<close> of the code.

  \<^bold>\<open>Not modelled.\<close> The syntax of the ini file (the parser is boost's), the splitting of
  the console input into replies, and changes of the file system during a call. The
  lines a call has printed before it faults or throws inside \<^verbatim>\<open>crossword::load\<close> are not
  part of its result. The solver that consumes the positions and queries the index is
  not in the repository.
\<close>

section \<open>From the files to the answer\<close>

text \<open>
  C2 (refinement). End to end, from the files to the answer: when the configuration file
  can be read and the dictionary file it names (or the default one, when it names none)
  holds at most 65536 records, one per line, whose canonical keys are shorter than
  \<^verbatim>\<open>LONGEST_WORD\<close>, the constructor returns an object, reports the number of records on
  the console, and the object answers a pattern shorter than \<^verbatim>\<open>LONGEST_WORD\<close> with
  exactly the positions of the records whose canonical key has the pattern's length and
  agrees with it at every position that is not the unknown byte, whatever the shuffle
  did.
\<close>

theorem constructed_answers:
  assumes "read_ini parse fs configFilePath = Inr t"
    and "fs (path_in t) = Some (file_of records)" "list_all plain records"
    and "length records \<le> 65536" "\<forall>r\<in>set records. length (clean_key (fst r)) < n"
    and "permuting (\<lambda>(len, k). rs len k)" "permuting rc" and "length p < n"
  shows "\<exists>obj ids d'. fst (Dictionary_path n parse fs rs rc configFilePath c) = Inr obj
    \<and> dictionaryFilePath obj = path_in t
    \<and> last (cout (snd (Dictionary_path n parse fs rs rc configFilePath c))) =
        ''[INFO]: Dictionary::loadDictionary: Loaded '' @ show_nat (length records)
          @ '' words from dictionary''
    \<and> query p (index obj) = Inr (ids, d')
    \<and> unat ` set ids = {i. i < length records \<and> matches 0 p (clean_key (fst (records ! i)))}"
proof -
  from assms(2,3) have r: "records_at fs (path_in t) = Some records"
    by (simp add: records_at_def read_records_file)
  with construct_total [where f = "Some records" and n = n and rs = rs and rc = rc] assms(5)
  obtain d where
    d: "construct n (records_at fs (path_in t)) rs rc = Inr d" by auto
  note D = Dictionary_path_read [OF assms(1) d, of c]
  from d r have d': "construct n (Some records) rs rc = Inr d" by simp
  from construct_inv(4) [OF d'] assms(4,6,7) have "length (allWords d) = length records" by simp
  with D(2) assms(2) have
    "last (cout (snd (Dictionary_path n parse fs rs rc configFilePath c))) =
       ''[INFO]: Dictionary::loadDictionary: Loaded '' @ show_nat (length records)
         @ '' words from dictionary''"
    by (simp add: load_line_def)
  with construct_answers [OF d' assms(4,6,7,8)] D(1) show ?thesis by auto
qed

theorem constructed_answers_witness:
  "\<exists>obj ids d'.
     fst (Dictionary_path 8 (\<lambda>bytes. Inr [''dictionary.dictionary_file_path'' \<mapsto> ''dict.txt''])
            [''my.ini'' \<mapsto> [], ''dict.txt'' \<mapsto> file_of ex_records] (\<lambda>len k. rev) (\<lambda>a. rev)
            ''my.ini'' \<lparr>cin = [], cout = []\<rparr>) = Inr obj
     \<and> dictionaryFilePath obj = ''dict.txt''
     \<and> query [202, 0, 210] (index obj) = Inr (ids, d') \<and> unat ` set ids = {0, 2}"
proof -
  let ?t = "[''dictionary.dictionary_file_path'' \<mapsto> ''dict.txt'']"
  let ?fs = "[''my.ini'' \<mapsto> [], ''dict.txt'' \<mapsto> file_of ex_records]"
  have p: "permuting (\<lambda>(len, k). rev)" "permuting (\<lambda>a. rev)" by (simp_all add: permuting_def)
  have i: "read_ini (\<lambda>bytes. Inr ?t) ?fs ''my.ini'' = Inr ?t" "path_in ?t = ''dict.txt''"
    by (simp_all add: read_ini_def path_in_def)
  have f: "?fs (path_in ?t) = Some (file_of ex_records)" "list_all plain ex_records"
    "length ex_records \<le> 65536" "\<forall>r\<in>set ex_records. length (clean_key (fst r)) < 8"
    by (simp_all add: i(2) ex_records_def plain_def clean_key_Cons)
  have m: "{i. i < length ex_records \<and> matches 0 [202, 0, 210] (clean_key (fst (ex_records ! i)))}
      = {0, 2}"
    using ex_words
    by (auto simp: ex_records_def matches_def less_Suc_eq numeral_3_eq_3)
  have "length [202, 0, 210 :: byte] < 8" by simp
  from constructed_answers [OF i(1) f p this, of "\<lparr>cin = [], cout = []\<rparr>"]
  show ?thesis unfolding i(2) m by blast
qed

text \<open>
  C36 (error). When the dictionary file cannot be opened the constructor still returns: it
  reports the path on the console, the object has no words, and every query with a
  pattern shorter than \<^verbatim>\<open>LONGEST_WORD\<close> returns the empty result.
\<close>

theorem unreadable_dictionary_answers_nothing:
  assumes "read_ini parse fs configFilePath = Inr t" and "fs (path_in t) = None"
    and "permuting (\<lambda>(len, k). rs len k)" and "permuting rc" and "length p < n"
  shows "\<exists>obj d'. fst (Dictionary_path n parse fs rs rc configFilePath c) = Inr obj
    \<and> last (cout (snd (Dictionary_path n parse fs rs rc configFilePath c))) =
        ''[ERROR]: Dictionary::loadDictionary: Could not open file: '' @ path_in t
    \<and> allWords (index obj) = [] \<and> query p (index obj) = Inr ([], d')"
proof -
  from construct_unreadable [OF assms(3-5)] obtain d d' where
    d: "construct n None rs rc = Inr d" "allWords d = []" "query p d = Inr ([], d')"
    by blast
  with assms(2) have "construct n (records_at fs (path_in t)) rs rc = Inr d"
    by (simp add: records_at_def)
  from Dictionary_path_read [OF assms(1) this, of c] assms(2) d(2,3) show ?thesis
    by (simp add: load_line_def)
qed

theorem unreadable_dictionary_answers_nothing_witness:
  "\<exists>obj d'.
     fst (Dictionary_path 8 (\<lambda>bytes. Inr Map.empty) [''my.ini'' \<mapsto> []] (\<lambda>len k. rev) (\<lambda>a. rev)
            ''my.ini'' \<lparr>cin = [], cout = []\<rparr>) = Inr obj
     \<and> query [202, 0, 210] (index obj) = Inr ([], d')"
proof -
  have "read_ini (\<lambda>bytes. Inr Map.empty) [''my.ini'' \<mapsto> []] ''my.ini'' = Inr Map.empty"
    "[''my.ini'' \<mapsto> []] (path_in Map.empty) = None"
    by (simp_all add: read_ini_def path_in_def DEFAULT_DICTIONARY_PATH_def)
  moreover have "permuting (\<lambda>(len, k). rev)" "permuting (\<lambda>a. rev)"
    "length [202, 0, 210 :: byte] < 8"
    by (simp_all add: permuting_def)
  ultimately show ?thesis
    using unreadable_dictionary_answers_nothing [of "\<lambda>bytes. Inr Map.empty" "[''my.ini'' \<mapsto> []]"
      "''my.ini''" Map.empty "\<lambda>len k. rev" "\<lambda>a. rev" "[202, 0, 210]" 8 "\<lparr>cin = [], cout = []\<rparr>"]
    by blast
qed

end
